theory Spec2Isabelle
  imports Complex_Main "HOL-Library.AList" "HOL-Library.Multiset" "HOL-Library.Code_Target_Numeral"
begin

section \<open>The stats pipeline of \<^verbatim>\<open>server.js\<close>\<close>

text \<open>
  The development embeds the middleware chain of the route \<^verbatim>\<open>GET /img/:width/:height\<close>,
  the five read handlers and the reset handler of \<^verbatim>\<open>server.js\<close>.

  Conventions of the embedding:
  \<^item> a JavaScript string is the byte sequence of its UTF-8 encoding (\<^typ>\<open>string\<close>);
  \<^item> a JavaScript number is a \<open>jsnum\<close>: not-a-number, an infinity, or a finite double held
    as the rational it denotes (the sign of zero is not kept: \<^verbatim>\<open>-0 > 0\<close> and \<^verbatim>\<open>0 > 0\<close> agree,
    and so do \<^verbatim>\<open>Number.isInteger\<close> of both);
  \<^item> a value that is \<^verbatim>\<open>undefined\<close> or present is an \<^typ>\<open>'a option\<close>; the values of the query
    parameters \<^verbatim>\<open>square\<close> and \<^verbatim>\<open>text\<close> and of the referrer header are strings when present
    (a query that repeats a parameter or nests it, which the query parser turns into an
    array or an object, is outside the embedding);
  \<^item> \<^verbatim>\<open>app.locals\<close> is a record passed through every handler and returned updated;
  \<^item> the object literals \<^verbatim>\<open>topSizes\<close> and \<^verbatim>\<open>topReferrers\<close> are lists of own properties in
    creation order; a property read falls through to \<^verbatim>\<open>Object.prototype\<close>, and a write to a
    built-in value reached that way is outside the state;
  \<^item> the counters \<^verbatim>\<open>n\<close> and the validated dimensions are natural numbers (the
    program only ever stores integers there; a double holds them exactly below \<open>2^53\<close>);
  \<^item> the \<^verbatim>\<open>catch\<close> branches of the read and reset handlers are left out: \<^verbatim>\<open>res.json\<close> of
    an array of strings or of flat records and \<^verbatim>\<open>res.sendStatus\<close> do not throw.
\<close>

subsection \<open>Numbers\<close>

datatype jsnum = NaN | NegInf | Fin rat | PosInf

text \<open>\<^verbatim>\<open>size > c\<close> for a finite constant \<open>c\<close>: false on \<^verbatim>\<open>NaN\<close>.\<close>

fun gt :: "jsnum \<Rightarrow> rat \<Rightarrow> bool" where
  "gt NaN c = False"
| "gt NegInf c = False"
| "gt (Fin q) c = (c < q)"
| "gt PosInf c = True"

text \<open>\<^verbatim>\<open>Number.isInteger(size)\<close>\<close>

fun Number_isInteger :: "jsnum \<Rightarrow> bool" where
  "Number_isInteger (Fin q) = (rat_of_int \<lfloor>q\<rfloor> = q)"
| "Number_isInteger _ = False"

text \<open>Unary minus on a number.\<close>

fun negate :: "jsnum \<Rightarrow> jsnum" where
  "negate NaN = NaN"
| "negate NegInf = PosInf"
| "negate (Fin q) = Fin (- q)"
| "negate PosInf = NegInf"

text \<open>The natural number held by a number that passed validation.\<close>

fun nat_of_jsnum :: "jsnum \<Rightarrow> nat" where
  "nat_of_jsnum (Fin q) = nat \<lfloor>q\<rfloor>"
| "nat_of_jsnum _ = 0"

subsection \<open>The unary plus on a string\<close>

text \<open>
  \<^verbatim>\<open>+req.params.width\<close> applies the language's string-to-number conversion: white space is
  trimmed, the empty string is \<open>0\<close>, a signed decimal literal (with fraction and exponent),
  \<^verbatim>\<open>Infinity\<close>, and an unsigned binary, octal or hexadecimal literal are read, and every
  other string is \<^verbatim>\<open>NaN\<close>. The mathematical value of the literal is rounded to the nearest
  double, as the engine does: \<^verbatim>\<open>+'2000.0000000000001'\<close> is \<open>2000\<close> and
  \<^verbatim>\<open>+'0.99999999999999999'\<close> is \<open>1\<close>.
\<close>

definition StrWhiteSpaceChar :: "string list" where
  "StrWhiteSpaceChar =
    [[CHR 0x09], [CHR 0x0A], [CHR 0x0B], [CHR 0x0C], [CHR 0x0D], [CHR 0x20],
     [CHR 0xC2, CHR 0xA0], [CHR 0xE1, CHR 0x9A, CHR 0x80],
     [CHR 0xE2, CHR 0x80, CHR 0x80], [CHR 0xE2, CHR 0x80, CHR 0x81],
     [CHR 0xE2, CHR 0x80, CHR 0x82], [CHR 0xE2, CHR 0x80, CHR 0x83],
     [CHR 0xE2, CHR 0x80, CHR 0x84], [CHR 0xE2, CHR 0x80, CHR 0x85],
     [CHR 0xE2, CHR 0x80, CHR 0x86], [CHR 0xE2, CHR 0x80, CHR 0x87],
     [CHR 0xE2, CHR 0x80, CHR 0x88], [CHR 0xE2, CHR 0x80, CHR 0x89],
     [CHR 0xE2, CHR 0x80, CHR 0x8A], [CHR 0xE2, CHR 0x80, CHR 0xA8],
     [CHR 0xE2, CHR 0x80, CHR 0xA9], [CHR 0xE2, CHR 0x80, CHR 0xAF],
     [CHR 0xE2, CHR 0x81, CHR 0x9F], [CHR 0xE3, CHR 0x80, CHR 0x80],
     [CHR 0xEF, CHR 0xBB, CHR 0xBF]]"

fun starts_with :: "string \<Rightarrow> string \<Rightarrow> bool" where
  "starts_with [] s = True"
| "starts_with (p # ps) [] = False"
| "starts_with (p # ps) (c # cs) = (p = c \<and> starts_with ps cs)"

function trim_start :: "string list \<Rightarrow> string \<Rightarrow> string" where
  "trim_start ws s =
     (case find (\<lambda>p. p \<noteq> [] \<and> starts_with p s) ws of
        None \<Rightarrow> s
      | Some p \<Rightarrow> if s = [] then s else trim_start ws (drop (length p) s))"
  by pat_completeness auto
termination
proof (relation "measure (\<lambda>(ws, s). length s)")
  show "wf (measure (\<lambda>(ws, s). length s))" by simp
next
  fix ws :: "string list" and s p :: string
  assume f: "find (\<lambda>p. p \<noteq> [] \<and> starts_with p s) ws = Some p" and ne: "s \<noteq> []"
  from f have "p \<noteq> []" by (auto simp: find_Some_iff)
  with ne show "((ws, drop (length p) s), (ws, s)) \<in> measure (\<lambda>(ws, s). length s)"
    by simp
qed

definition trim :: "string \<Rightarrow> string" where
  "trim s = rev (trim_start (map rev StrWhiteSpaceChar) (rev (trim_start StrWhiteSpaceChar s)))"

definition digit_of :: "char \<Rightarrow> nat option" where
  "digit_of c =
     (let k = of_char c :: nat in
      if 48 \<le> k \<and> k \<le> 57 then Some (k - 48)
      else if 97 \<le> k \<and> k \<le> 102 then Some (k - 87)
      else if 65 \<le> k \<and> k \<le> 70 then Some (k - 55)
      else None)"

definition is_digit :: "nat \<Rightarrow> char \<Rightarrow> bool" where
  "is_digit b c = (case digit_of c of None \<Rightarrow> False | Some d \<Rightarrow> d < b)"

text \<open>The value of a non-empty run of digits of base \<open>b\<close>.\<close>

definition parse_digits :: "nat \<Rightarrow> string \<Rightarrow> nat option" where
  "parse_digits b s =
     (if s = [] \<or> \<not> list_all (is_digit b) s then None
      else Some (foldl (\<lambda>acc c. acc * b + (case digit_of c of None \<Rightarrow> 0 | Some d \<Rightarrow> d)) 0 s))"

text \<open>The part before the first character satisfying \<open>P\<close>, and the part after it if there is one.\<close>

definition split_at :: "(char \<Rightarrow> bool) \<Rightarrow> string \<Rightarrow> string \<times> string option" where
  "split_at P s =
     (takeWhile (\<lambda>c. \<not> P c) s,
      case dropWhile (\<lambda>c. \<not> P c) s of [] \<Rightarrow> None | _ # r \<Rightarrow> Some r)"

definition parse_exponent :: "string option \<Rightarrow> int option" where
  "parse_exponent ex =
     (case ex of
        None \<Rightarrow> Some 0
      | Some [] \<Rightarrow> None
      | Some (c # r) \<Rightarrow>
          if c = CHR ''+'' then map_option int (parse_digits 10 r)
          else if c = CHR ''-'' then map_option (\<lambda>k. - int k) (parse_digits 10 r)
          else map_option int (parse_digits 10 (c # r)))"

text \<open>
  The double nearest to the fraction \<open>a / b\<close> of two natural numbers (\<open>b\<close> is never 0
  below), ties going to the even significand. With \<open>e\<close> the exponent of the fraction
  (\<open>2 ^ e \<le> a / b < 2 ^ (e + 1)\<close>, found from the bit lengths) and not below \<open>-1022\<close>, where
  the subnormal numbers start, the fraction is rounded to a multiple of \<open>2 ^ (e - 52)\<close>; a
  result of \<open>2 ^ 1024\<close> or more is \<^verbatim>\<open>Infinity\<close>.
\<close>

fun bit_length :: "nat \<Rightarrow> nat" where
  "bit_length k = (if k = 0 then 0 else Suc (bit_length (k div 2)))"

declare bit_length.simps [simp del]

definition round_half_even :: "nat \<Rightarrow> nat \<Rightarrow> nat" where
  "round_half_even a b =
     (let q = a div b; r = a mod b
      in if 2 * r < b then q else if b < 2 * r then q + 1 else if even q then q else q + 1)"

definition binary64 :: "nat \<Rightarrow> nat \<Rightarrow> jsnum" where
  "binary64 a b =
     (if a = 0 then Fin 0
      else
        let e0 = int (bit_length a) - int (bit_length b);
            e = (if (if 0 \<le> e0 then b * 2 ^ nat e0 \<le> a else b \<le> a * 2 ^ nat (- e0))
                 then e0 else e0 - 1);
            s = max e (- 1022) - 52;
            m = (if 0 \<le> s then round_half_even a (b * 2 ^ nat s)
                 else round_half_even (a * 2 ^ nat (- s)) b)
        in if 0 \<le> s \<and> 2 ^ 1024 \<le> m * 2 ^ nat s then PosInf
           else Fin (if 0 \<le> s then rat_of_nat (m * 2 ^ nat s)
                     else rat_of_nat m / 2 ^ nat (- s)))"

text \<open>The number value of the decimal \<open>m \<times> 10 ^ k\<close>.\<close>

definition Number_of_decimal :: "nat \<Rightarrow> int \<Rightarrow> jsnum" where
  "Number_of_decimal m k =
     (if 0 \<le> k then binary64 (m * 10 ^ nat k) 1 else binary64 m (10 ^ nat (- k)))"

definition StrUnsignedDecimalLiteral :: "string \<Rightarrow> jsnum" where
  "StrUnsignedDecimalLiteral s =
     (if s = ''Infinity'' then PosInf
      else
        let (mant, ex) = split_at (\<lambda>c. c = CHR ''e'' \<or> c = CHR ''E'') s;
            (ip, fp) = split_at (\<lambda>c. c = CHR ''.'') mant
        in case parse_exponent ex of
             None \<Rightarrow> NaN
           | Some k \<Rightarrow>
              (case fp of
                 None \<Rightarrow>
                   (case parse_digits 10 ip of
                      None \<Rightarrow> NaN
                    | Some m \<Rightarrow> Number_of_decimal m k)
               | Some f \<Rightarrow>
                   if (ip = [] \<and> f = []) \<or> \<not> list_all (is_digit 10) (ip @ f) then NaN
                   else
                     (case parse_digits 10 (ip @ f @ ''0'') of
                        None \<Rightarrow> NaN
                      | Some m \<Rightarrow> Number_of_decimal m (k - int (length f) - 1))))"

definition NonDecimalIntegerLiteral :: "string \<Rightarrow> jsnum option" where
  "NonDecimalIntegerLiteral s =
     (case s of
        z # p # r \<Rightarrow>
          if z \<noteq> CHR ''0'' then None
          else if p = CHR ''x'' \<or> p = CHR ''X'' then
            Some (case parse_digits 16 r of None \<Rightarrow> NaN | Some m \<Rightarrow> binary64 m 1)
          else if p = CHR ''o'' \<or> p = CHR ''O'' then
            Some (case parse_digits 8 r of None \<Rightarrow> NaN | Some m \<Rightarrow> binary64 m 1)
          else if p = CHR ''b'' \<or> p = CHR ''B'' then
            Some (case parse_digits 2 r of None \<Rightarrow> NaN | Some m \<Rightarrow> binary64 m 1)
          else None
      | _ \<Rightarrow> None)"

definition ToNumber :: "string \<Rightarrow> jsnum" where
  "ToNumber str =
     (let s = trim str in
      if s = [] then Fin 0
      else case NonDecimalIntegerLiteral s of
             Some v \<Rightarrow> v
           | None \<Rightarrow>
               (case s of
                  c # r \<Rightarrow>
                    if c = CHR ''+'' then StrUnsignedDecimalLiteral r
                    else if c = CHR ''-'' then negate (StrUnsignedDecimalLiteral r)
                    else StrUnsignedDecimalLiteral s
                | [] \<Rightarrow> Fin 0))"

text \<open>
  The character of a decimal or (upper-case) hexadecimal digit, and \<^verbatim>\<open>String(k)\<close> for a
  natural number: its decimal digits.
\<close>

definition digit_char :: "nat \<Rightarrow> char" where
  "digit_char d = ''0123456789ABCDEF'' ! (d mod 16)"

fun Number_toString :: "nat \<Rightarrow> string" where
  "Number_toString k =
     (if k < 10 then [digit_char k]
      else Number_toString (k div 10) @ [digit_char (k mod 10)])"

declare Number_toString.simps [simp del]

subsection \<open>Requests, responses and the state of the application\<close>

text \<open>What the handlers read of a request.\<close>

record request =
  path :: string
  params_width :: string
  params_height :: string
  query_square :: "string option"
  query_text :: "string option"
  headers_referer :: "string option"

text \<open>
  \<^verbatim>\<open>res.locals.params\<close> and \<^verbatim>\<open>res.locals.queries\<close>, as the validator leaves them. The field
  \<^verbatim>\<open>text\<close> of the queries is \<open>text_q\<close> here, \<open>text\<close> being a keyword.
\<close>

record params =
  width :: nat
  height :: nat

record queries =
  square :: "nat option"
  text_q :: "string option"

record res_locals =
  params :: params
  queries :: queries

record sizes =
  w :: nat
  h :: nat

record topSizeRecord = sizes +
  n :: nat

record topReferrerRecord =
  ref :: string
  n :: nat

text \<open>An object literal used as a table: its own properties, in creation order.\<close>

type_synonym 'r object = "(string \<times> 'r) list"

record app_locals =
  recentPaths :: "string list"
  recentSizes :: "sizes list"
  recentTexts :: "string list"
  topSizes :: "topSizeRecord object"
  topReferrers :: "topReferrerRecord object"

text \<open>
  What a handler sends. \<open>SendImage\<close> stands for the call
  \<^verbatim>\<open>imager.sendImage(res, width, height, square, text)\<close>: the image module is outside this
  file, and the response is its image or, when it throws, the status 500.
\<close>

datatype response =
    SendStatus nat
  | SendImage nat nat "nat option" "string option"
  | JsonStrings "string list"
  | JsonSizes "sizes list"
  | JsonTopSizes "topSizeRecord list"
  | JsonTopReferrers "topReferrerRecord list"

text \<open>The global variables as the module sets them when it is loaded.\<close>

definition initial :: app_locals where
  "initial = \<lparr>recentPaths = [], recentSizes = [], recentTexts = [], topSizes = [],
     topReferrers = []\<rparr>"

subsection \<open>\<^verbatim>\<open>validateInputs\<close>\<close>

text \<open>
  The dimensions that take part in the two checks: width, height, and the square when
  \<^verbatim>\<open>square || square === ''\<close> holds, which every string satisfies.
\<close>

definition dimensions :: "request \<Rightarrow> jsnum list" where
  "dimensions req =
     [ToNumber (params_width req), ToNumber (params_height req)] @
     (case query_square req of
        None \<Rightarrow> []
      | Some s \<Rightarrow> if s \<noteq> [] \<or> s = [] then [ToNumber s] else [])"

text \<open>
  \<open>Inl\<close> is the status sent by \<^verbatim>\<open>error(res, statusCode, ...)\<close>, after which the chain stops;
  \<open>Inr\<close> is \<^verbatim>\<open>res.locals\<close> when \<^verbatim>\<open>next()\<close> is called. The dimensions stored there passed
  both checks, so they are positive integers.
\<close>

definition validateInputs :: "request \<Rightarrow> nat + res_locals" where
  "validateInputs req =
     (let width = ToNumber (params_width req);
          height = ToNumber (params_height req);
          square = (case query_square req of
                      None \<Rightarrow> None
                    | Some s \<Rightarrow> if s \<noteq> [] \<or> s = [] then Some (ToNumber s) else None);
          text = (if query_text req = Some ''+'' then Some '' '' else query_text req);
          isTooBig = list_ex (\<lambda>size. gt size 2000) (dimensions req)
      in if isTooBig then Inl 403
         else
           let isValid = list_all (\<lambda>size. gt size 0 \<and> Number_isInteger size) (dimensions req)
           in if \<not> isValid then Inl 400
              else Inr \<lparr>params = \<lparr>width = nat_of_jsnum width, height = nat_of_jsnum height\<rparr>,
                        queries = \<lparr>square = map_option nat_of_jsnum square, text_q = text\<rparr>\<rparr>)"

subsection \<open>Library functions the stages call\<close>

text \<open>\<^verbatim>\<open>[...new Set(xs)]\<close>: the elements of \<open>xs\<close> in order of first occurrence.\<close>

definition Set_values :: "'a list \<Rightarrow> 'a list" where
  "Set_values xs = foldl (\<lambda>acc x. if x \<in> set acc then acc else acc @ [x]) [] xs"

text \<open>\<^verbatim>\<open>xs.findIndex(P)\<close>: the first index whose element satisfies \<open>P\<close>, or \<open>-1\<close>.\<close>

fun findIndex :: "('a \<Rightarrow> bool) \<Rightarrow> 'a list \<Rightarrow> int" where
  "findIndex P [] = - 1"
| "findIndex P (x # xs) =
     (if P x then 0 else (let i = findIndex P xs in if i < 0 then - 1 else i + 1))"

text \<open>\<^verbatim>\<open>xs.filter((x, i) => f(x, i))\<close>\<close>

definition filter_indexed :: "('a \<Rightarrow> nat \<Rightarrow> bool) \<Rightarrow> 'a list \<Rightarrow> 'a list" where
  "filter_indexed f xs = map fst (filter (\<lambda>(x, i). f x i) (zip xs [0..<length xs]))"

text \<open>\<^verbatim>\<open>xs.join(sep)\<close> on strings.\<close>

fun join :: "string \<Rightarrow> string list \<Rightarrow> string" where
  "join sep [] = []"
| "join sep [x] = x"
| "join sep (x # y # ys) = x @ sep @ join sep (y # ys)"

text \<open>
  \<^verbatim>\<open>encodeURIComponent\<close>: every byte of the UTF-8 encoding is escaped as \<^verbatim>\<open>%XX\<close>, except the
  letters, the digits and \<^verbatim>\<open>- _ . ! ~ * ' ( )\<close>.
\<close>

definition unreserved :: "char \<Rightarrow> bool" where
  "unreserved c =
     (let k = of_char c :: nat in
      (65 \<le> k \<and> k \<le> 90) \<or> (97 \<le> k \<and> k \<le> 122) \<or> (48 \<le> k \<and> k \<le> 57) \<or>
      c \<in> set [CHR ''-'', CHR ''_'', CHR ''.'', CHR ''!'', CHR ''~'', CHR ''*'', CHR 0x27,
                 CHR ''('', CHR '')''])"

definition encodeURIComponent :: "string \<Rightarrow> string" where
  "encodeURIComponent s =
     concat (map (\<lambda>c. if unreserved c then [c]
                       else [CHR ''%'', digit_char (of_char c div 16), digit_char (of_char c mod 16)]) s)"

text \<open>
  A property read \<^verbatim>\<open>obj[key]\<close> on an object literal: an own property, else a property
  inherited from \<^verbatim>\<open>Object.prototype\<close> (each of them a function or an object, so truthy),
  else \<^verbatim>\<open>undefined\<close>.
\<close>

definition Object_prototype_keys :: "string list" where
  "Object_prototype_keys =
     [''constructor'', ''__defineGetter__'', ''__defineSetter__'', ''hasOwnProperty'',
      ''__lookupGetter__'', ''__lookupSetter__'', ''isPrototypeOf'', ''propertyIsEnumerable'',
      ''toString'', ''valueOf'', ''__proto__'', ''toLocaleString'']"

datatype 'r property = Own 'r | Inherited | Undefined

definition get_property :: "'r object \<Rightarrow> string \<Rightarrow> 'r property" where
  "get_property obj key =
     (case map_of obj key of
        Some r \<Rightarrow> Own r
      | None \<Rightarrow> if key \<in> set Object_prototype_keys then Inherited else Undefined)"

text \<open>
  \<^verbatim>\<open>Object.values(obj)\<close>: the own properties whose key is an array index (a canonical
  decimal numeral below \<open>2^32 - 1\<close>) in ascending order of the index, then the others in
  creation order.
\<close>

definition array_index :: "string \<Rightarrow> nat option" where
  "array_index key =
     (case parse_digits 10 key of
        None \<Rightarrow> None
      | Some v \<Rightarrow>
          if (key = ''0'' \<or> take 1 key \<noteq> ''0'') \<and> int v < 4294967295 then Some v else None)"

definition Object_values :: "'r object \<Rightarrow> 'r list" where
  "Object_values obj =
     map snd
       (sort_key (\<lambda>(key, r). case array_index key of None \<Rightarrow> 0 | Some v \<Rightarrow> v)
          (filter (\<lambda>(key, r). array_index key \<noteq> None) obj) @
        filter (\<lambda>(key, r). array_index key = None) obj)"

text \<open>
  \<^verbatim>\<open>xs.sort(cmp)\<close>: the sort is stable; an element goes before the first later one
  that the comparator does not put before it.
\<close>

fun insert_cmp :: "('a \<Rightarrow> 'a \<Rightarrow> int) \<Rightarrow> 'a \<Rightarrow> 'a list \<Rightarrow> 'a list" where
  "insert_cmp cmp x [] = [x]"
| "insert_cmp cmp x (y # ys) = (if cmp x y \<le> 0 then x # y # ys else y # insert_cmp cmp x ys)"

definition Array_sort :: "('a \<Rightarrow> 'a \<Rightarrow> int) \<Rightarrow> 'a list \<Rightarrow> 'a list" where
  "Array_sort cmp xs = foldr (insert_cmp cmp) xs []"

subsection \<open>The five stages\<close>

text \<open>
  The keys of \<^verbatim>\<open>res.locals.queries\<close> are \<^verbatim>\<open>square\<close> and \<^verbatim>\<open>text\<close>, in this order; a key is kept
  when its value is truthy (a number other than \<open>0\<close>, a string other than the empty one),
  and the value is converted to a string and escaped.
\<close>

definition truthy_queries :: "queries \<Rightarrow> (string \<times> string) list" where
  "truthy_queries q =
     (case square q of
        None \<Rightarrow> []
      | Some k \<Rightarrow> if k \<noteq> 0 then [(''square'', Number_toString k)] else []) @
     (case text_q q of
        None \<Rightarrow> []
      | Some t \<Rightarrow> if t \<noteq> [] then [(''text'', t)] else [])"

definition applyRecentPaths :: "request \<Rightarrow> res_locals \<Rightarrow> app_locals \<Rightarrow> app_locals" where
  "applyRecentPaths req res st =
     (let queriesStr =
            join ''&'' (map (\<lambda>(queryKey, v). queryKey @ ''='' @ encodeURIComponent v)
                          (truthy_queries (queries res)));
          questionMark = (if queriesStr \<noteq> [] then ''?'' else []);
          url = path req @ questionMark @ queriesStr;
          recentPaths = url # recentPaths st;
          firstTenUniqueRecentPaths = take 10 (Set_values recentPaths)
      in st\<lparr>recentPaths := firstTenUniqueRecentPaths\<rparr>)"

definition applyRecentSizes :: "res_locals \<Rightarrow> app_locals \<Rightarrow> app_locals" where
  "applyRecentSizes res st =
     (let sizes = \<lparr>w = width (params res), h = height (params res)\<rparr>;
          recentSizes = sizes # recentSizes st;
          uniqueRecentSizes =
            filter_indexed
              (\<lambda>sizes i. int i = findIndex (\<lambda>size. w size = w sizes \<and> h size = h sizes) recentSizes)
              recentSizes
      in st\<lparr>recentSizes := take 10 uniqueRecentSizes\<rparr>)"

definition applyRecentTexts :: "res_locals \<Rightarrow> app_locals \<Rightarrow> app_locals" where
  "applyRecentTexts res st =
     (let text = text_q (queries res);
          recentTexts =
            (case text of
               None \<Rightarrow> recentTexts st
             | Some t \<Rightarrow> if t \<noteq> [] then t # recentTexts st else recentTexts st);
          firstTenUniqueRecentTexts = take 10 (Set_values recentTexts)
      in st\<lparr>recentTexts := firstTenUniqueRecentTexts\<rparr>)"

text \<open>The template literal \<^verbatim>\<open>`${width}x${height}`\<close>.\<close>

definition sizeKey_of :: "res_locals \<Rightarrow> string" where
  "sizeKey_of res =
     Number_toString (width (params res)) @ ''x'' @ Number_toString (height (params res))"

text \<open>
  \<^verbatim>\<open>if (!topSizes[sizeKey]) { topSizes[sizeKey] = {w, h, n: 0}; }  topSizes[sizeKey].n += 1;\<close>
  When the key is undefined the record is created, at the end of the object, and counted
  once. When it is an own property its record is counted in place. When the read yields
  an inherited property the test finds it truthy, no own property is created, and the
  increment writes to that inherited value, outside the table.
\<close>

definition applyTopSizes :: "res_locals \<Rightarrow> app_locals \<Rightarrow> app_locals" where
  "applyTopSizes res st =
     (let width = width (params res);
          height = height (params res);
          sizeKey = sizeKey_of res;
          topSizes =
            (case get_property (topSizes st) sizeKey of
               Undefined \<Rightarrow>
                 AList.update sizeKey \<lparr>w = width, h = height, topSizeRecord.n = 0 + 1\<rparr> (topSizes st)
             | Own r \<Rightarrow>
                 AList.update sizeKey (r\<lparr>topSizeRecord.n := topSizeRecord.n r + 1\<rparr>) (topSizes st)
             | Inherited \<Rightarrow> topSizes st)
      in st\<lparr>topSizes := topSizes\<rparr>)"

definition applyTopReferrers :: "request \<Rightarrow> app_locals \<Rightarrow> app_locals" where
  "applyTopReferrers req st =
     (let topReferrers =
            (case headers_referer req of
               None \<Rightarrow> topReferrers st
             | Some referrerKey \<Rightarrow>
                 if referrerKey \<noteq> [] then
                   (case get_property (topReferrers st) referrerKey of
                      Undefined \<Rightarrow>
                        AList.update referrerKey \<lparr>ref = referrerKey, n = 0 + 1\<rparr> (topReferrers st)
                    | Own r \<Rightarrow>
                        AList.update referrerKey
                          (r\<lparr>topReferrerRecord.n := topReferrerRecord.n r + 1\<rparr>) (topReferrers st)
                    | Inherited \<Rightarrow> topReferrers st)
                 else topReferrers st)
      in st\<lparr>topReferrers := topReferrers\<rparr>)"

subsection \<open>The handlers\<close>

definition serveImage :: "res_locals \<Rightarrow> response" where
  "serveImage res =
     SendImage (width (params res)) (height (params res)) (square (queries res))
       (text_q (queries res))"

text \<open>The route \<^verbatim>\<open>GET /img/:width/:height\<close>: the validator, the five stages, the image.\<close>

definition getImg :: "request \<Rightarrow> app_locals \<Rightarrow> response \<times> app_locals" where
  "getImg req st =
     (case validateInputs req of
        Inl statusCode \<Rightarrow> (SendStatus statusCode, st)
      | Inr res \<Rightarrow>
          (serveImage res,
           applyTopReferrers req
             (applyTopSizes res
               (applyRecentTexts res
                 (applyRecentSizes res
                   (applyRecentPaths req res st))))))"

definition serveRecentPaths :: "app_locals \<Rightarrow> response \<times> app_locals" where
  "serveRecentPaths st = (JsonStrings (recentPaths st), st)"

definition serveRecentSizes :: "app_locals \<Rightarrow> response \<times> app_locals" where
  "serveRecentSizes st = (JsonSizes (recentSizes st), st)"

definition serveRecentTexts :: "app_locals \<Rightarrow> response \<times> app_locals" where
  "serveRecentTexts st = (JsonStrings (recentTexts st), st)"

definition serveTopSizes :: "app_locals \<Rightarrow> response \<times> app_locals" where
  "serveTopSizes st =
     (let topSizesList =
            take 10 (Array_sort (\<lambda>a b. int (topSizeRecord.n b) - int (topSizeRecord.n a))
                       (Object_values (topSizes st)))
      in (JsonTopSizes topSizesList, st))"

definition serveTopReferrers :: "app_locals \<Rightarrow> response \<times> app_locals" where
  "serveTopReferrers st =
     (let topReferrersList =
            take 10 (Array_sort (\<lambda>a b. int (topReferrerRecord.n b) - int (topReferrerRecord.n a))
                       (Object_values (topReferrers st)))
      in (JsonTopReferrers topReferrersList, st))"

definition resetStats :: "app_locals \<Rightarrow> response \<times> app_locals" where
  "resetStats st =
     (SendStatus 200,
      st\<lparr>recentPaths := [], recentSizes := [], recentTexts := [], topSizes := [],
         topReferrers := []\<rparr>)"

text \<open>The routes of the application, and a run of requests handled one after the other.\<close>

datatype route =
    GET_img request
  | GET_stats_paths_recent
  | GET_stats_sizes_recent
  | GET_stats_texts_recent
  | GET_stats_sizes_top
  | GET_stats_referrers_top
  | DELETE_stats

fun handle :: "route \<Rightarrow> app_locals \<Rightarrow> response \<times> app_locals" where
  "handle (GET_img req) st = getImg req st"
| "handle GET_stats_paths_recent st = serveRecentPaths st"
| "handle GET_stats_sizes_recent st = serveRecentSizes st"
| "handle GET_stats_texts_recent st = serveRecentTexts st"
| "handle GET_stats_sizes_top st = serveTopSizes st"
| "handle GET_stats_referrers_top st = serveTopReferrers st"
| "handle DELETE_stats st = resetStats st"

fun run :: "route list \<Rightarrow> app_locals \<Rightarrow> app_locals" where
  "run [] st = st"
| "run (r # rs) st = run rs (snd (handle r st))"

subsection \<open>Notions used in the statements\<close>

text \<open>The elements of a list that are not in \<open>seen\<close>, each kept where it first occurs.\<close>

fun first_occurrences :: "'a set \<Rightarrow> 'a list \<Rightarrow> 'a list" where
  "first_occurrences seen [] = []"
| "first_occurrences seen (x # xs) =
     (if x \<in> seen then first_occurrences seen xs
      else x # first_occurrences (insert x seen) xs)"

text \<open>A request of the image route that passes the validator.\<close>

definition accepted :: "route \<Rightarrow> bool" where
  "accepted r = (case r of GET_img req \<Rightarrow> \<not> isl (validateInputs req) | _ \<Rightarrow> False)"

text \<open>The count stored under a key of a table, \<open>0\<close> when the key has no record.\<close>

definition size_count :: "topSizeRecord object \<Rightarrow> string \<Rightarrow> nat" where
  "size_count obj key = (case map_of obj key of None \<Rightarrow> 0 | Some r \<Rightarrow> topSizeRecord.n r)"

definition referrer_count :: "topReferrerRecord object \<Rightarrow> string \<Rightarrow> nat" where
  "referrer_count obj key = (case map_of obj key of None \<Rightarrow> 0 | Some r \<Rightarrow> topReferrerRecord.n r)"

text \<open>The recent-sizes stage followed by the top-sizes stage.\<close>

definition stages_sizes :: "res_locals \<Rightarrow> app_locals \<Rightarrow> app_locals" where
  "stages_sizes res st = applyTopSizes res (applyRecentSizes res st)"

text \<open>Every record of the two tables has a count above zero.\<close>

definition positive_counts :: "app_locals \<Rightarrow> bool" where
  "positive_counts st =
     ((\<forall>(key, r) \<in> set (topSizes st). 0 < topSizeRecord.n r) \<and>
      (\<forall>(key, r) \<in> set (topReferrers st). 0 < topReferrerRecord.n r))"

text \<open>A state whose table of sizes holds eleven records, counted once to eleven times.\<close>

definition eleven_sizes :: app_locals where
  "eleven_sizes = initial\<lparr>topSizes :=
     [(''1x1'', \<lparr>w = 1, h = 1, topSizeRecord.n = 1\<rparr>),
      (''2x1'', \<lparr>w = 2, h = 1, topSizeRecord.n = 2\<rparr>),
      (''3x1'', \<lparr>w = 3, h = 1, topSizeRecord.n = 3\<rparr>),
      (''4x1'', \<lparr>w = 4, h = 1, topSizeRecord.n = 4\<rparr>),
      (''5x1'', \<lparr>w = 5, h = 1, topSizeRecord.n = 5\<rparr>),
      (''6x1'', \<lparr>w = 6, h = 1, topSizeRecord.n = 6\<rparr>),
      (''7x1'', \<lparr>w = 7, h = 1, topSizeRecord.n = 7\<rparr>),
      (''8x1'', \<lparr>w = 8, h = 1, topSizeRecord.n = 8\<rparr>),
      (''9x1'', \<lparr>w = 9, h = 1, topSizeRecord.n = 9\<rparr>),
      (''10x1'', \<lparr>w = 10, h = 1, topSizeRecord.n = 10\<rparr>),
      (''11x1'', \<lparr>w = 11, h = 1, topSizeRecord.n = 11\<rparr>)]\<rparr>"

section \<open>Properties\<close>

subsection \<open>Evaluating the conversion on literals\<close>

lemmas ToNumber_defs = ToNumber_def trim_def StrWhiteSpaceChar_def NonDecimalIntegerLiteral_def
  StrUnsignedDecimalLiteral_def split_at_def parse_exponent_def Number_of_decimal_def
  binary64_def round_half_even_def bit_length.simps parse_digits_def is_digit_def digit_of_def

lemma ToNumber_empty: "ToNumber [] = Fin 0"
  by (simp add: ToNumber_defs)

lemma ToNumber_0: "ToNumber ''0'' = Fin 0"
  by (simp add: ToNumber_defs)

lemma ToNumber_10: "ToNumber ''10'' = Fin 10"
  by (simp add: ToNumber_defs)

lemma ToNumber_100: "ToNumber ''100'' = Fin 100"
  by (simp add: ToNumber_defs)

lemma ToNumber_200: "ToNumber ''200'' = Fin 200"
  by (simp add: ToNumber_defs)

lemma ToNumber_3000: "ToNumber ''3000'' = Fin 3000"
  by (simp add: ToNumber_defs)

lemma ToNumber_1_5: "ToNumber ''1.5'' = Fin (3 / 2)"
  by (simp add: ToNumber_defs)

text \<open>Literals that are not doubles: the conversion rounds them.\<close>

lemma ToNumber_rounds_to_2000: "ToNumber ''2000.0000000000001'' = Fin 2000"
  by (simp add: ToNumber_defs)

lemma ToNumber_rounds_up_to_2000: "ToNumber ''1999.9999999999999'' = Fin 2000"
  by (simp add: ToNumber_defs)

lemma ToNumber_rounds_to_1: "ToNumber ''0.99999999999999999'' = Fin 1"
  by (simp add: ToNumber_defs)

text \<open>A natural number below \<open>2 ^ 53\<close> is a double: the rounding leaves it as it is.\<close>

lemma bit_length_bounds: "0 < a \<Longrightarrow> 2 ^ (bit_length a - 1) \<le> a \<and> a < 2 ^ bit_length a"
proof (induction a rule: bit_length.induct)
  case (1 k)
  show ?case
  proof (cases "k div 2 = 0")
    case True
    with "1.prems" have "k = 1" by (simp add: div_eq_0_iff) 
    then show ?thesis by (simp add: bit_length.simps)
  next
    case False
    then have pos: "0 < k div 2" by simp
    from "1.IH" [OF _ pos] "1.prems"
    have ih: "2 ^ (bit_length (k div 2) - 1) \<le> k div 2" "k div 2 < 2 ^ bit_length (k div 2)"
      by simp_all
    have bl: "bit_length k = Suc (bit_length (k div 2))"
      using "1.prems" by (simp add: bit_length.simps [of k])
    have nz: "bit_length (k div 2) \<noteq> 0"
      using pos by (simp add: bit_length.simps [of "k div 2"])
    then obtain j where j: "bit_length (k div 2) = Suc j" by (cases "bit_length (k div 2)") auto
    from ih(1) have "2 * 2 ^ j \<le> 2 * (k div 2)" by (simp add: j)
    also have "\<dots> \<le> k" by simp
    finally have lo: "2 ^ (bit_length k - 1) \<le> k" by (simp add: bl j)
    from ih(2) have "k div 2 + 1 \<le> 2 ^ Suc j" by (simp add: j)
    then have "2 * (k div 2) + 2 \<le> 2 * 2 ^ Suc j" by simp
    moreover have "k < 2 * (k div 2) + 2" by presburger
    ultimately have hi: "k < 2 ^ bit_length k" by (simp add: bl j)
    from lo hi show ?thesis by simp
  qed
qed

lemma bit_length_1: "bit_length 1 = 1" "bit_length (Suc 0) = Suc 0"
  by (simp_all add: bit_length.simps)

lemma binary64_integer:
  assumes "a < 2 ^ 53"
  shows "binary64 a 1 = Fin (rat_of_nat a)"
proof (cases "a = 0")
  case True
  then show ?thesis by (simp add: binary64_def)
next
  case False
  then have pos: "0 < a" by simp
  from bit_length_bounds [OF pos] have lo: "2 ^ (bit_length a - 1) \<le> a" and hi: "a < 2 ^ bit_length a"
    by simp_all
  have l1: "1 \<le> bit_length a" using pos by (simp add: bit_length.simps [of a])
  have l53: "bit_length a \<le> 53"
  proof (rule ccontr)
    assume "\<not> bit_length a \<le> 53"
    then have "53 \<le> bit_length a - 1" by simp
    then have "(2::nat) ^ 53 \<le> 2 ^ (bit_length a - 1)" by (rule power_increasing) simp
    with lo assms show False by simp
  qed
  define k where "k = 53 - bit_length a"
  have e0: "int (bit_length a) - int (bit_length 1) = int (bit_length a - 1)"
    using l1 by (simp add: bit_length_1)
  have c: "(if 0 \<le> int (bit_length a - 1) then 1 * 2 ^ nat (int (bit_length a - 1)) \<le> a
            else 1 \<le> a * 2 ^ nat (- int (bit_length a - 1))) = True"
    using lo by simp
  have s: "max (int (bit_length a - 1)) (- 1022) - 52 = - int k"
    using l1 l53 by (simp add: k_def)
  have unfolded: "binary64 a 1 =
      (if 0 \<le> - int k \<and>
          2 ^ 1024 \<le> (if 0 \<le> - int k then round_half_even a (1 * 2 ^ nat (- int k))
                        else round_half_even (a * 2 ^ nat (- (- int k))) 1) * 2 ^ nat (- int k)
       then PosInf
       else Fin (if 0 \<le> - int k
                 then rat_of_nat ((if 0 \<le> - int k then round_half_even a (1 * 2 ^ nat (- int k))
                        else round_half_even (a * 2 ^ nat (- (- int k))) 1) * 2 ^ nat (- int k))
                 else rat_of_nat (if 0 \<le> - int k then round_half_even a (1 * 2 ^ nat (- int k))
                        else round_half_even (a * 2 ^ nat (- (- int k))) 1) / 2 ^ nat (- (- int k))))"
    using False by (simp only: binary64_def Let_def e0 c if_True if_False s)
  have r: "round_half_even x 1 = x" "round_half_even x (Suc 0) = x" for x
    by (simp_all add: round_half_even_def)
  have big: "\<not> (2::nat) ^ 1024 \<le> a"
  proof -
    have "(2::nat) ^ 53 \<le> 2 ^ 1024" by (rule power_increasing) simp_all
    with assms show ?thesis by linarith
  qed
  show ?thesis
  proof (cases "k = 0")
    case True
    have "binary64 a 1 = Fin (rat_of_nat a)"
      unfolding unfolded True using big by (simp add: r)
    then show ?thesis .
  next
    case kpos: False
    then have neg: "\<not> 0 \<le> - int k" by simp
    have "binary64 a 1 = Fin (rat_of_nat (a * 2 ^ k) / 2 ^ k)"
      unfolding unfolded using neg by (simp add: r)
    then show ?thesis by simp
  qed
qed


lemma Number_of_decimal_integer: "m < 2 ^ 53 \<Longrightarrow> Number_of_decimal m 0 = Fin (rat_of_nat m)"
  using binary64_integer [of m] by (simp add: Number_of_decimal_def)

lemma not_integer_3_2: "\<not> Number_isInteger (Fin (3 / 2))"
proof -
  have "\<lfloor>3 / 2 :: rat\<rfloor> = 1" by (simp add: floor_eq_iff)
  then show ?thesis by simp
qed

subsection \<open>The validator\<close>

lemma set_dimensions:
  "set (dimensions req) =
     {ToNumber (params_width req), ToNumber (params_height req)} \<union>
     (case query_square req of None \<Rightarrow> {} | Some s \<Rightarrow> {ToNumber s})"
  by (auto simp: dimensions_def split: option.splits)

lemma validateInputs_403:
  "(\<exists>d \<in> set (dimensions req). gt d 2000) \<Longrightarrow> validateInputs req = Inl 403"
  by (simp add: validateInputs_def Let_def list_ex_iff)

lemma validateInputs_400:
  "\<not> (\<exists>d \<in> set (dimensions req). gt d 2000) \<Longrightarrow>
   (\<exists>d \<in> set (dimensions req). \<not> (gt d 0 \<and> Number_isInteger d)) \<Longrightarrow>
   validateInputs req = Inl 400"
  by (simp add: validateInputs_def Let_def list_ex_iff list_all_iff)

lemma getImg_rejected: "validateInputs req = Inl c \<Longrightarrow> getImg req st = (SendStatus c, st)"
  by (simp add: getImg_def)

text \<open>
  What the validator accepts: every dimension in scope is an integer from 1 to 2000, and
  the numbers stored in \<^verbatim>\<open>res.locals\<close> are the converted ones.
\<close>

lemma validated_number:
  assumes "gt d 0" "Number_isInteger d" "\<not> gt d 2000"
  shows "d = Fin (rat_of_nat (nat_of_jsnum d)) \<and> 1 \<le> nat_of_jsnum d \<and> nat_of_jsnum d \<le> 2000"
proof (cases d)
  case (Fin q)
  define k where "k = \<lfloor>q\<rfloor>"
  from assms Fin have q: "q = rat_of_int k" "0 < q" "q \<le> 2000"
    by (auto simp: k_def)
  from q have k: "0 < k" "k \<le> 2000" by simp_all
  have n: "nat_of_jsnum d = nat k" by (simp add: Fin k_def)
  have r: "rat_of_nat (nat k) = rat_of_int k" using k by simp
  have b: "1 \<le> nat k" "nat k \<le> 2000" using k by linarith+
  show ?thesis unfolding n r using Fin q(1) b by simp
qed (use assms in simp_all)

lemma validateInputs_accepts:
  assumes "validateInputs req = Inr res"
  shows "ToNumber (params_width req) = Fin (rat_of_nat (width (params res))) \<and>
         1 \<le> width (params res) \<and> width (params res) \<le> 2000 \<and>
         ToNumber (params_height req) = Fin (rat_of_nat (height (params res))) \<and>
         1 \<le> height (params res) \<and> height (params res) \<le> 2000"
proof -
  from assms have ok: "\<forall>d \<in> set (dimensions req). gt d 0 \<and> Number_isInteger d \<and> \<not> gt d 2000"
    by (auto simp: validateInputs_def Let_def list_ex_iff list_all_iff split: if_splits)
  from assms have r: "width (params res) = nat_of_jsnum (ToNumber (params_width req))"
      "height (params res) = nat_of_jsnum (ToNumber (params_height req))"
    by (auto simp: validateInputs_def Let_def split: if_splits)
  have "ToNumber (params_width req) \<in> set (dimensions req)"
       "ToNumber (params_height req) \<in> set (dimensions req)"
    by (simp_all add: set_dimensions)
  with ok validated_number [of "ToNumber (params_width req)"]
    validated_number [of "ToNumber (params_height req)"]
  show ?thesis unfolding r by metis
qed

lemma validateInputs_square:
  assumes "validateInputs req = Inr res"
  shows "(query_square req = None \<longrightarrow> square (queries res) = None) \<and>
         (\<forall>s. query_square req = Some s \<longrightarrow>
            (\<exists>k. square (queries res) = Some k \<and> ToNumber s = Fin (rat_of_nat k) \<and>
                 1 \<le> k \<and> k \<le> 2000))"
proof (intro conjI allI impI)
  assume "query_square req = None"
  with assms show "square (queries res) = None"
    by (auto simp: validateInputs_def Let_def split: if_splits)
next
  fix s assume s: "query_square req = Some s"
  from assms have ok: "\<forall>d \<in> set (dimensions req). gt d 0 \<and> Number_isInteger d \<and> \<not> gt d 2000"
    by (auto simp: validateInputs_def Let_def list_ex_iff list_all_iff split: if_splits)
  from assms s have r: "square (queries res) = Some (nat_of_jsnum (ToNumber s))"
    by (auto simp: validateInputs_def Let_def split: if_splits)
  have "ToNumber s \<in> set (dimensions req)" using s by (simp add: set_dimensions)
  with ok validated_number [of "ToNumber s"] r
  show "\<exists>k. square (queries res) = Some k \<and> ToNumber s = Fin (rat_of_nat k) \<and> 1 \<le> k \<and> k \<le> 2000"
    by metis
qed

lemma validateInputs_valid:
  assumes "\<forall>d \<in> set (dimensions req). gt d 0 \<and> Number_isInteger d \<and> \<not> gt d 2000"
  shows "\<exists>res. validateInputs req = Inr res"
  using assms by (simp add: validateInputs_def Let_def list_ex_iff list_all_iff)

text \<open>Two requests used as instances below.\<close>

lemma validateInputs_100_200_any:
  "validateInputs \<lparr>path = p, params_width = ''100'', params_height = ''200'',
      query_square = None, query_text = t, headers_referer = r\<rparr> =
   Inr \<lparr>params = \<lparr>width = 100, height = 200\<rparr>,
        queries = \<lparr>square = None, text_q = (if t = Some ''+'' then Some '' '' else t)\<rparr>\<rparr>"
  by (simp add: validateInputs_def dimensions_def ToNumber_100 ToNumber_200)

lemma validateInputs_3000_100:
  "validateInputs \<lparr>path = p, params_width = ''3000'', params_height = ''100'',
      query_square = None, query_text = t, headers_referer = r\<rparr> = Inl 403"
  by (rule validateInputs_403) (simp add: set_dimensions ToNumber_3000)

text \<open>
  Requests at the edge of the two checks, where the conversion rounds: a width just above
  2000 or just below 1 that is read as 2000 or as 1 is accepted.
\<close>

lemma ToNumber_5: "ToNumber ''5'' = Fin 5"
  by (simp add: ToNumber_defs)

lemma validateInputs_rounded_2000:
  "validateInputs \<lparr>path = p, params_width = ''2000.0000000000001'', params_height = ''100'',
      query_square = None, query_text = None, headers_referer = r\<rparr> =
   Inr \<lparr>params = \<lparr>width = 2000, height = 100\<rparr>, queries = \<lparr>square = None, text_q = None\<rparr>\<rparr>"
  by (simp add: validateInputs_def dimensions_def ToNumber_rounds_to_2000 ToNumber_100)

lemma validateInputs_rounded_1:
  "validateInputs \<lparr>path = p, params_width = ''0.99999999999999999'', params_height = ''5'',
      query_square = None, query_text = None, headers_referer = r\<rparr> =
   Inr \<lparr>params = \<lparr>width = 1, height = 5\<rparr>, queries = \<lparr>square = None, text_q = None\<rparr>\<rparr>"
  by (simp add: validateInputs_def dimensions_def ToNumber_rounds_to_1 ToNumber_5)

lemma validateInputs_rounded_2000_square:
  "validateInputs \<lparr>path = p, params_width = ''2000.0000000000001'', params_height = ''10'',
      query_square = Some [], query_text = None, headers_referer = r\<rparr> = Inl 400"
  by (simp add: validateInputs_def dimensions_def ToNumber_rounds_to_2000 ToNumber_10
        ToNumber_empty)

lemma validateInputs_0_rounded_2000:
  "validateInputs \<lparr>path = p, params_width = ''0'', params_height = ''2000.0000000000001'',
      query_square = None, query_text = None, headers_referer = r\<rparr> = Inl 400"
  by (simp add: validateInputs_def dimensions_def ToNumber_rounds_to_2000 ToNumber_0)

lemma accepted_rounded_2000:
  "accepted (GET_img \<lparr>path = p, params_width = ''2000.0000000000001'', params_height = ''100'',
      query_square = None, query_text = None, headers_referer = r\<rparr>)"
  by (simp add: accepted_def validateInputs_rounded_2000)

text \<open>
  Claim C1. When some dimension in scope (the width, the height, or the square when the
  query has one) converts to a number greater than 2000, the route answers 403 and hands
  back the state it was given: none of \<open>recentPaths\<close>, \<open>recentSizes\<close>, \<open>recentTexts\<close>,
  \<open>topSizes\<close>, \<open>topReferrers\<close> changes.
\<close>

theorem C1_too_large:
  assumes "\<exists>d \<in> set (dimensions req). gt d 2000"
  shows "getImg req st = (SendStatus 403, st)"
  using assms by (simp add: validateInputs_403 getImg_rejected)

theorem C1_too_large_witness:
  "(\<exists>d \<in> set (dimensions \<lparr>path = ''/img/3000/100'', params_width = ''3000'',
        params_height = ''100'', query_square = None, query_text = None,
        headers_referer = None\<rparr>). gt d 2000) \<and>
   getImg \<lparr>path = ''/img/3000/100'', params_width = ''3000'', params_height = ''100'',
      query_square = None, query_text = None, headers_referer = None\<rparr> initial =
     (SendStatus 403, initial)"
proof -
  let ?req = "\<lparr>path = ''/img/3000/100'', params_width = ''3000'', params_height = ''100'',
      query_square = None, query_text = None, headers_referer = None\<rparr>"
  have h: "\<exists>d \<in> set (dimensions ?req). gt d 2000"
    by (simp add: set_dimensions ToNumber_3000)
  from h C1_too_large [OF h, of initial] show ?thesis by simp
qed

text \<open>
  Claim C2, as stated, fails: the request \<^verbatim>\<open>/img/0/3000\<close> has a width that is not a
  positive integer, and the answer is 403, since the size check comes first.
\<close>

theorem C2_counterexample:
  "\<not> (gt (ToNumber ''0'') 0 \<and> Number_isInteger (ToNumber ''0'')) \<and>
   fst (getImg \<lparr>path = ''/img/0/3000'', params_width = ''0'', params_height = ''3000'',
      query_square = None, query_text = None, headers_referer = None\<rparr> initial) \<noteq>
     SendStatus 400"
  by (simp add: getImg_rejected [OF validateInputs_403] set_dimensions ToNumber_0 ToNumber_3000)

text \<open>
  Claim C2, amended. When some dimension in scope is not a positive integer and no
  dimension in scope is greater than 2000, the route answers 400 and hands back the state
  it was given.
\<close>

theorem C2_invalid_dimension:
  assumes "\<exists>d \<in> set (dimensions req). \<not> (gt d 0 \<and> Number_isInteger d)"
      and "\<not> (\<exists>d \<in> set (dimensions req). gt d 2000)"
  shows "getImg req st = (SendStatus 400, st)"
  using assms by (simp add: validateInputs_400 getImg_rejected)

theorem C2_invalid_dimension_witness:
  "(\<exists>d \<in> set (dimensions \<lparr>path = ''/img/100/1.5'', params_width = ''100'',
        params_height = ''1.5'', query_square = None, query_text = None,
        headers_referer = None\<rparr>). \<not> (gt d 0 \<and> Number_isInteger d)) \<and>
   \<not> (\<exists>d \<in> set (dimensions \<lparr>path = ''/img/100/1.5'', params_width = ''100'',
        params_height = ''1.5'', query_square = None, query_text = None,
        headers_referer = None\<rparr>). gt d 2000) \<and>
   getImg \<lparr>path = ''/img/100/1.5'', params_width = ''100'', params_height = ''1.5'',
      query_square = None, query_text = None, headers_referer = None\<rparr> initial =
     (SendStatus 400, initial)"
proof -
  let ?req = "\<lparr>path = ''/img/100/1.5'', params_width = ''100'', params_height = ''1.5'',
      query_square = None, query_text = None, headers_referer = None\<rparr>"
  have a: "\<exists>d \<in> set (dimensions ?req). \<not> (gt d 0 \<and> Number_isInteger d)"
    by (simp add: set_dimensions ToNumber_100 ToNumber_1_5 not_integer_3_2
          del: Number_isInteger.simps)
  have b: "\<not> (\<exists>d \<in> set (dimensions ?req). gt d 2000)"
    by (simp add: set_dimensions ToNumber_100 ToNumber_1_5)
  from a b C2_invalid_dimension [OF a b, of initial] show ?thesis by simp
qed

text \<open>
  Claim C9, as stated, fails: with an empty \<^verbatim>\<open>square\<close> the request \<^verbatim>\<open>/img/3000/10?square=\<close>
  is answered 403, not 400.
\<close>

theorem C9_counterexample:
  "fst (getImg \<lparr>path = ''/img/3000/10'', params_width = ''3000'', params_height = ''10'',
      query_square = Some [], query_text = None, headers_referer = None\<rparr> initial) \<noteq>
     SendStatus 400"
  by (simp add: getImg_rejected [OF validateInputs_403] set_dimensions ToNumber_3000)

text \<open>
  Claim C9, amended. When the \<^verbatim>\<open>square\<close> parameter is present with the empty string as its
  value, it converts to the number 0, it is among the dimensions in scope, and the request
  is rejected with the state unchanged: with 400, or with 403 when the width or the
  height is greater than 2000.
\<close>

theorem C9_empty_square:
  assumes "query_square req = Some []"
  shows "ToNumber [] = Fin 0 \<and> Fin 0 \<in> set (dimensions req) \<and>
         getImg req st =
           (SendStatus (if gt (ToNumber (params_width req)) 2000 \<or>
                           gt (ToNumber (params_height req)) 2000
                        then 403 else 400), st)"
proof -
  have z: "ToNumber [] = Fin 0" by (rule ToNumber_empty)
  have m: "Fin 0 \<in> set (dimensions req)"
    using assms by (simp add: set_dimensions z)
  show ?thesis
  proof (cases "gt (ToNumber (params_width req)) 2000 \<or> gt (ToNumber (params_height req)) 2000")
    case True
    then have "\<exists>d \<in> set (dimensions req). gt d 2000"
      by (auto simp: set_dimensions)
    then show ?thesis using z m True by (simp add: validateInputs_403 getImg_rejected)
  next
    case False
    then have a: "\<not> (\<exists>d \<in> set (dimensions req). gt d 2000)"
      using assms by (auto simp: set_dimensions z)
    have b: "\<exists>d \<in> set (dimensions req). \<not> (gt d 0 \<and> Number_isInteger d)"
      using m by (intro bexI [of _ "Fin 0"]) simp_all
    show ?thesis using z m False by (simp add: validateInputs_400 [OF a b] getImg_rejected)
  qed
qed

theorem C9_empty_square_witness:
  "query_square \<lparr>path = ''/img/10/10'', params_width = ''10'', params_height = ''10'',
      query_square = Some [], query_text = None, headers_referer = None\<rparr> = Some [] \<and>
   getImg \<lparr>path = ''/img/10/10'', params_width = ''10'', params_height = ''10'',
      query_square = Some [], query_text = None, headers_referer = None\<rparr> initial =
     (SendStatus 400, initial)"
proof -
  let ?req = "\<lparr>path = ''/img/10/10'', params_width = ''10'', params_height = ''10'',
      query_square = Some [], query_text = None, headers_referer = None\<rparr>"
  have h: "query_square ?req = Some []" by simp
  from C9_empty_square [OF h, of initial] show ?thesis by (simp add: ToNumber_10)
qed

subsection \<open>Removing duplicates\<close>

lemma set_first_occurrences: "set (first_occurrences S xs) = set xs - S"
  by (induction xs arbitrary: S) auto

lemma distinct_first_occurrences: "distinct (first_occurrences S xs)"
  by (induction xs arbitrary: S) (auto simp: set_first_occurrences)

lemma first_occurrences_distinct:
  "distinct xs \<Longrightarrow> set xs \<inter> S = {} \<Longrightarrow> first_occurrences S xs = xs"
  by (induction xs arbitrary: S) auto

lemma foldl_Set_values:
  "foldl (\<lambda>acc x. if x \<in> set acc then acc else acc @ [x]) acc xs =
     acc @ first_occurrences (set acc) xs"
  by (induction xs arbitrary: acc) auto

lemma Set_values_first_occurrences: "Set_values xs = first_occurrences {} xs"
  by (simp add: Set_values_def foldl_Set_values)

lemma findIndex_takeWhile:
  "findIndex P xs =
     (if \<exists>x \<in> set xs. P x then int (length (takeWhile (\<lambda>x. \<not> P x) xs)) else - 1)"
  by (induction xs) (auto simp: Let_def)

lemma findIndex_append_self:
  "(int (length ps) = findIndex (\<lambda>y. y = x) (ps @ x # xs)) = (x \<notin> set ps)"
proof (cases "x \<in> set ps")
  case True
  then have "length (takeWhile (\<lambda>y. y \<noteq> x) ps) < length ps"
    by (induction ps) auto
  moreover from True have "takeWhile (\<lambda>y. y \<noteq> x) (ps @ x # xs) = takeWhile (\<lambda>y. y \<noteq> x) ps"
    by (induction ps) auto
  ultimately show ?thesis using True by (simp add: findIndex_takeWhile)
next
  case False
  then have "takeWhile (\<lambda>y. y \<noteq> x) (ps @ x # xs) = ps"
    by (induction ps) auto
  then show ?thesis using False by (simp add: findIndex_takeWhile)
qed

lemma filter_indexed_Nil: "filter_indexed f [] = []"
  by (simp add: filter_indexed_def)

lemma filter_indexed_Cons:
  "filter_indexed f (x # xs) =
     (if f x 0 then [x] else []) @ filter_indexed (\<lambda>y i. f y (Suc i)) xs"
proof -
  have "[0..<Suc (length xs)] = 0 # map Suc [0..<length xs]"
    by (simp add: upt_conv_Cons map_Suc_upt del: upt_Suc)
  then show ?thesis
    by (simp add: filter_indexed_def zip_map2 filter_map o_def case_prod_unfold del: upt_Suc)
qed

lemma filter_indexed_findIndex:
  "filter_indexed (\<lambda>x i. int (length ps + i) = findIndex (\<lambda>y. y = x) (ps @ xs)) xs =
     first_occurrences (set ps) xs"
proof (induction xs arbitrary: ps)
  case Nil
  show ?case by (simp add: filter_indexed_Nil)
next
  case (Cons x xs)
  let ?F = "\<lambda>y i. int (length ps + i) = findIndex (\<lambda>z. z = y) (ps @ x # xs)"
  have hd: "?F x 0 = (x \<notin> set ps)"
    using findIndex_append_self [of ps x xs] by simp
  have tl: "filter_indexed (\<lambda>y i. ?F y (Suc i)) xs = first_occurrences (insert x (set ps)) xs"
    using Cons.IH [of "ps @ [x]"] by simp
  have "filter_indexed ?F (x # xs) =
          (if ?F x 0 then [x] else []) @ filter_indexed (\<lambda>y i. ?F y (Suc i)) xs"
    by (rule filter_indexed_Cons)
  also have "\<dots> = (if x \<notin> set ps then [x] else []) @ first_occurrences (insert x (set ps)) xs"
    by (simp only: hd tl)
  also have "\<dots> = first_occurrences (set ps) (x # xs)"
    by (simp add: insert_absorb)
  finally show ?case .
qed

lemma sizes_eq_iff: "(w a = w b \<and> h a = h b) = (a = (b :: sizes))"
  by (cases a, cases b) auto

lemma recentSizes_applyRecentSizes:
  "recentSizes (applyRecentSizes res st) =
     take 10 (\<lparr>w = width (params res), h = height (params res)\<rparr> #
              first_occurrences {\<lparr>w = width (params res), h = height (params res)\<rparr>} (recentSizes st))"
proof -
  let ?s = "\<lparr>w = width (params res), h = height (params res)\<rparr>"
  have "filter_indexed (\<lambda>x i. int i = findIndex (\<lambda>y. w y = w x \<and> h y = h x) (?s # recentSizes st))
          (?s # recentSizes st) = first_occurrences {} (?s # recentSizes st)"
    using filter_indexed_findIndex [of "[]" "?s # recentSizes st"] by (simp add: sizes_eq_iff)
  then show ?thesis by (simp add: applyRecentSizes_def Let_def)
qed

subsection \<open>What a stage leaves alone\<close>

lemma applyRecentPaths_frame:
  "recentSizes (applyRecentPaths req res st) = recentSizes st"
  "recentTexts (applyRecentPaths req res st) = recentTexts st"
  "topSizes (applyRecentPaths req res st) = topSizes st"
  "topReferrers (applyRecentPaths req res st) = topReferrers st"
  by (simp_all add: applyRecentPaths_def Let_def)

lemma applyRecentSizes_frame:
  "recentPaths (applyRecentSizes res st) = recentPaths st"
  "recentTexts (applyRecentSizes res st) = recentTexts st"
  "topSizes (applyRecentSizes res st) = topSizes st"
  "topReferrers (applyRecentSizes res st) = topReferrers st"
  by (simp_all add: applyRecentSizes_def Let_def)

lemma applyRecentTexts_frame:
  "recentPaths (applyRecentTexts res st) = recentPaths st"
  "recentSizes (applyRecentTexts res st) = recentSizes st"
  "topSizes (applyRecentTexts res st) = topSizes st"
  "topReferrers (applyRecentTexts res st) = topReferrers st"
  by (simp_all add: applyRecentTexts_def Let_def)

lemma applyTopSizes_frame:
  "recentPaths (applyTopSizes res st) = recentPaths st"
  "recentSizes (applyTopSizes res st) = recentSizes st"
  "recentTexts (applyTopSizes res st) = recentTexts st"
  "topReferrers (applyTopSizes res st) = topReferrers st"
  by (simp_all add: applyTopSizes_def Let_def)

lemma applyTopReferrers_frame:
  "recentPaths (applyTopReferrers req st) = recentPaths st"
  "recentSizes (applyTopReferrers req st) = recentSizes st"
  "recentTexts (applyTopReferrers req st) = recentTexts st"
  "topSizes (applyTopReferrers req st) = topSizes st"
  by (simp_all add: applyTopReferrers_def Let_def)

lemmas frame = applyRecentPaths_frame applyRecentSizes_frame applyRecentTexts_frame
  applyTopSizes_frame applyTopReferrers_frame

lemma getImg_accepted:
  "validateInputs req = Inr res \<Longrightarrow>
   getImg req st =
     (serveImage res,
      applyTopReferrers req (applyTopSizes res (applyRecentTexts res
        (applyRecentSizes res (applyRecentPaths req res st)))))"
  by (simp add: getImg_def)

text \<open>
  Claim C3. After an accepted image request with validated width and height, \<open>recentSizes\<close>
  has at most 10 entries, no two of them with the same pair \<open>(w, h)\<close>, and the entry of
  the request at index 0. The state before the request is arbitrary.
\<close>

theorem C3_recent_sizes:
  assumes "validateInputs req = Inr res"
  shows "length (recentSizes (snd (getImg req st))) \<le> 10 \<and>
         distinct (map (\<lambda>e. (w e, h e)) (recentSizes (snd (getImg req st)))) \<and>
         recentSizes (snd (getImg req st)) \<noteq> [] \<and>
         recentSizes (snd (getImg req st)) ! 0 =
           \<lparr>w = width (params res), h = height (params res)\<rparr>"
proof -
  let ?s = "\<lparr>w = width (params res), h = height (params res)\<rparr>"
  let ?xs = "take 10 (?s # first_occurrences {?s} (recentSizes st))"
  have eq: "recentSizes (snd (getImg req st)) = ?xs"
    using assms by (simp add: getImg_accepted frame recentSizes_applyRecentSizes)
  have d: "distinct ?xs"
    by (rule distinct_take) (simp add: distinct_first_occurrences set_first_occurrences)
  have inj: "inj (\<lambda>e :: sizes. (w e, h e))"
    by (rule injI) (simp add: sizes_eq_iff)
  have "distinct (map (\<lambda>e. (w e, h e)) ?xs)"
    unfolding distinct_map by (rule conjI [OF d inj_on_subset [OF inj subset_UNIV]])
  moreover have "length ?xs \<le> 10" by simp
  moreover have "?xs \<noteq> []" "?xs ! 0 = ?s" by simp_all
  ultimately show ?thesis unfolding eq by blast
qed

theorem C3_recent_sizes_witness:
  "validateInputs \<lparr>path = ''/img/100/200'', params_width = ''100'', params_height = ''200'',
      query_square = None, query_text = None, headers_referer = None\<rparr> =
     Inr \<lparr>params = \<lparr>width = 100, height = 200\<rparr>, queries = \<lparr>square = None, text_q = None\<rparr>\<rparr> \<and>
   recentSizes (snd (getImg \<lparr>path = ''/img/100/200'', params_width = ''100'',
      params_height = ''200'', query_square = None, query_text = None,
      headers_referer = None\<rparr> initial)) ! 0 = \<lparr>w = 100, h = 200\<rparr>"
proof -
  let ?req = "\<lparr>path = ''/img/100/200'', params_width = ''100'', params_height = ''200'',
      query_square = None, query_text = None, headers_referer = None\<rparr>"
  let ?res = "\<lparr>params = \<lparr>width = 100, height = 200\<rparr>, queries = \<lparr>square = None, text_q = None\<rparr>\<rparr>"
  have v: "validateInputs ?req = Inr ?res" by (simp add: validateInputs_100_200_any)
  from v C3_recent_sizes [OF v, of initial] show ?thesis by simp
qed

text \<open>
  Claim C10. Each stage changes its own collection only: the other four fields of the
  state are the same after \<open>applyRecentPaths\<close>, \<open>applyRecentSizes\<close>, \<open>applyRecentTexts\<close>,
  \<open>applyTopSizes\<close> and \<open>applyTopReferrers\<close>, for every request and every state.
\<close>

theorem C10_frame:
  "recentSizes (applyRecentPaths req res st) = recentSizes st \<and>
   recentTexts (applyRecentPaths req res st) = recentTexts st \<and>
   topSizes (applyRecentPaths req res st) = topSizes st \<and>
   topReferrers (applyRecentPaths req res st) = topReferrers st \<and>
   recentPaths (applyRecentSizes res st) = recentPaths st \<and>
   recentTexts (applyRecentSizes res st) = recentTexts st \<and>
   topSizes (applyRecentSizes res st) = topSizes st \<and>
   topReferrers (applyRecentSizes res st) = topReferrers st \<and>
   recentPaths (applyRecentTexts res st) = recentPaths st \<and>
   recentSizes (applyRecentTexts res st) = recentSizes st \<and>
   topSizes (applyRecentTexts res st) = topSizes st \<and>
   topReferrers (applyRecentTexts res st) = topReferrers st \<and>
   recentPaths (applyTopSizes res st) = recentPaths st \<and>
   recentSizes (applyTopSizes res st) = recentSizes st \<and>
   recentTexts (applyTopSizes res st) = recentTexts st \<and>
   topReferrers (applyTopSizes res st) = topReferrers st \<and>
   recentPaths (applyTopReferrers req st) = recentPaths st \<and>
   recentSizes (applyTopReferrers req st) = recentSizes st \<and>
   recentTexts (applyTopReferrers req st) = recentTexts st \<and>
   topSizes (applyTopReferrers req st) = topSizes st"
  by (simp only: frame simp_thms)

theorem C10_frame_witness:
  "topSizes (applyRecentPaths \<lparr>path = ''/img/100/200'', params_width = ''100'',
      params_height = ''200'', query_square = None, query_text = None,
      headers_referer = None\<rparr>
     \<lparr>params = \<lparr>width = 100, height = 200\<rparr>, queries = \<lparr>square = None, text_q = None\<rparr>\<rparr>
     initial) = [] \<and>
   recentPaths (applyTopSizes
     \<lparr>params = \<lparr>width = 100, height = 200\<rparr>, queries = \<lparr>square = None, text_q = None\<rparr>\<rparr>
     initial) = []"
  using C10_frame [of "\<lparr>path = ''/img/100/200'', params_width = ''100'',
      params_height = ''200'', query_square = None, query_text = None,
      headers_referer = None\<rparr>"
     "\<lparr>params = \<lparr>width = 100, height = 200\<rparr>, queries = \<lparr>square = None, text_q = None\<rparr>\<rparr>"
     initial]
  by (simp add: initial_def)

subsection \<open>Texts\<close>

lemma recentTexts_applyRecentTexts:
  "recentTexts (applyRecentTexts res st) =
     take 10 (Set_values (case text_q (queries res) of
                            None \<Rightarrow> recentTexts st
                          | Some t \<Rightarrow> if t \<noteq> [] then t # recentTexts st else recentTexts st))"
  by (simp add: applyRecentTexts_def Let_def)

lemma validateInputs_text:
  "validateInputs req = Inr res \<Longrightarrow>
   text_q (queries res) = (if query_text req = Some ''+'' then Some '' '' else query_text req)"
  by (auto simp: validateInputs_def Let_def split: if_splits)

text \<open>
  Claim C6. When the validator accepts, the text it stores is a single space if the query
  text is the string \<^verbatim>\<open>+\<close>, and the query text unchanged otherwise. The recent-texts stage
  puts a present, non-empty text at index 0 of \<open>recentTexts\<close>; an absent or empty text is
  not recorded: the stage only removes duplicates and cuts the list to ten entries, which
  changes nothing in a list of at most ten distinct entries.
\<close>

theorem C6_text:
  "(validateInputs req = Inr res \<longrightarrow>
      text_q (queries res) = (if query_text req = Some ''+'' then Some '' '' else query_text req)) \<and>
   (\<forall>t. text_q (queries res') = Some t \<and> t \<noteq> [] \<longrightarrow>
      recentTexts (applyRecentTexts res' st) \<noteq> [] \<and>
      recentTexts (applyRecentTexts res' st) ! 0 = t) \<and>
   (text_q (queries res') = None \<or> text_q (queries res') = Some [] \<longrightarrow>
      recentTexts (applyRecentTexts res' st) = take 10 (Set_values (recentTexts st)) \<and>
      set (recentTexts (applyRecentTexts res' st)) \<subseteq> set (recentTexts st) \<and>
      (distinct (recentTexts st) \<and> length (recentTexts st) \<le> 10 \<longrightarrow>
         recentTexts (applyRecentTexts res' st) = recentTexts st))"
proof (intro conjI allI impI)
  assume "validateInputs req = Inr res"
  then show "text_q (queries res) = (if query_text req = Some ''+'' then Some '' '' else query_text req)"
    by (rule validateInputs_text)
next
  fix t assume t: "text_q (queries res') = Some t \<and> t \<noteq> []"
  then have "recentTexts (applyRecentTexts res' st) =
               take 10 (t # first_occurrences {t} (recentTexts st))"
    by (simp add: recentTexts_applyRecentTexts Set_values_first_occurrences)
  then show "recentTexts (applyRecentTexts res' st) \<noteq> []"
    and "recentTexts (applyRecentTexts res' st) ! 0 = t"
    by simp_all
next
  assume a: "text_q (queries res') = None \<or> text_q (queries res') = Some []"
  then show eq: "recentTexts (applyRecentTexts res' st) = take 10 (Set_values (recentTexts st))"
    by (auto simp: recentTexts_applyRecentTexts)
  have "set (take 10 (Set_values (recentTexts st))) \<subseteq> set (Set_values (recentTexts st))"
    by (rule set_take_subset)
  then show "set (recentTexts (applyRecentTexts res' st)) \<subseteq> set (recentTexts st)"
    by (simp add: eq Set_values_first_occurrences set_first_occurrences)
  assume "distinct (recentTexts st) \<and> length (recentTexts st) \<le> 10"
  then show "recentTexts (applyRecentTexts res' st) = recentTexts st"
    by (simp add: eq Set_values_first_occurrences first_occurrences_distinct)
qed

theorem C6_text_witness:
  "validateInputs \<lparr>path = ''/img/100/200'', params_width = ''100'', params_height = ''200'',
      query_square = None, query_text = Some ''+'', headers_referer = None\<rparr> =
     Inr \<lparr>params = \<lparr>width = 100, height = 200\<rparr>,
          queries = \<lparr>square = None, text_q = Some '' ''\<rparr>\<rparr> \<and>
   recentTexts (applyRecentTexts \<lparr>params = \<lparr>width = 100, height = 200\<rparr>,
          queries = \<lparr>square = None, text_q = Some '' ''\<rparr>\<rparr> initial) ! 0 = '' ''"
proof -
  let ?req = "\<lparr>path = ''/img/100/200'', params_width = ''100'', params_height = ''200'',
      query_square = None, query_text = Some ''+'', headers_referer = None\<rparr>"
  let ?res = "\<lparr>params = \<lparr>width = 100, height = 200\<rparr>,
          queries = \<lparr>square = None, text_q = Some '' ''\<rparr>\<rparr>"
  have v: "validateInputs ?req = Inr ?res" by (simp add: validateInputs_100_200_any)
  from v C6_text [of ?req ?res ?res initial] show ?thesis by simp
qed

subsection \<open>Reset\<close>

lemma resetStats_initial: "resetStats st = (SendStatus 200, initial)"
  by (simp add: resetStats_def initial_def)

lemma handle_not_accepted: "\<not> accepted r \<Longrightarrow> snd (handle r initial) = initial"
  by (cases r)
     (auto simp: accepted_def getImg_def serveRecentPaths_def serveRecentSizes_def
        serveRecentTexts_def serveTopSizes_def serveTopReferrers_def resetStats_initial
        split: sum.splits)

lemma run_not_accepted: "\<forall>r \<in> set rs. \<not> accepted r \<Longrightarrow> run rs initial = initial"
  by (induction rs) (simp_all add: handle_not_accepted)

lemma Object_values_Nil: "Object_values [] = []"
  by (simp add: Object_values_def)

lemma Array_sort_Nil: "Array_sort cmp [] = []"
  by (simp add: Array_sort_def)

lemma reads_initial:
  "serveRecentPaths initial = (JsonStrings [], initial)"
  "serveRecentSizes initial = (JsonSizes [], initial)"
  "serveRecentTexts initial = (JsonStrings [], initial)"
  "serveTopSizes initial = (JsonTopSizes [], initial)"
  "serveTopReferrers initial = (JsonTopReferrers [], initial)"
  by (simp_all add: serveRecentPaths_def serveRecentSizes_def serveRecentTexts_def
        serveTopSizes_def serveTopReferrers_def initial_def Object_values_Nil Array_sort_Nil)

text \<open>
  Claim C7. The reset handler answers 200 and empties the five collections, whatever the
  state; after it, through any run of requests none of which is an accepted image
  request, each of the five reads returns the empty array.
\<close>

theorem C7_reset:
  "fst (resetStats st) = SendStatus 200 \<and>
   recentPaths (snd (resetStats st)) = [] \<and>
   recentSizes (snd (resetStats st)) = [] \<and>
   recentTexts (snd (resetStats st)) = [] \<and>
   topSizes (snd (resetStats st)) = [] \<and>
   topReferrers (snd (resetStats st)) = [] \<and>
   ((\<forall>r \<in> set rs. \<not> accepted r) \<longrightarrow>
      fst (serveRecentPaths (run rs (snd (resetStats st)))) = JsonStrings [] \<and>
      fst (serveRecentSizes (run rs (snd (resetStats st)))) = JsonSizes [] \<and>
      fst (serveRecentTexts (run rs (snd (resetStats st)))) = JsonStrings [] \<and>
      fst (serveTopSizes (run rs (snd (resetStats st)))) = JsonTopSizes [] \<and>
      fst (serveTopReferrers (run rs (snd (resetStats st)))) = JsonTopReferrers [])"
proof -
  have "(\<forall>r \<in> set rs. \<not> accepted r) \<longrightarrow> run rs (snd (resetStats st)) = initial"
    by (simp add: resetStats_initial run_not_accepted)
  then show ?thesis
    by (auto simp: resetStats_initial reads_initial) (simp_all add: initial_def)
qed

theorem C7_reset_witness:
  "\<not> accepted (GET_img \<lparr>path = ''/img/3000/100'', params_width = ''3000'',
        params_height = ''100'', query_square = None, query_text = None,
        headers_referer = None\<rparr>) \<and>
   \<not> accepted GET_stats_sizes_top \<and>
   fst (serveRecentTexts (run [GET_img \<lparr>path = ''/img/3000/100'', params_width = ''3000'',
        params_height = ''100'', query_square = None, query_text = None,
        headers_referer = None\<rparr>, GET_stats_sizes_top]
      (snd (resetStats (initial\<lparr>recentTexts := [''a'']\<rparr>))))) = JsonStrings []"
proof -
  let ?rs = "[GET_img \<lparr>path = ''/img/3000/100'', params_width = ''3000'',
        params_height = ''100'', query_square = None, query_text = None,
        headers_referer = None\<rparr>, GET_stats_sizes_top]"
  have a: "\<forall>r \<in> set ?rs. \<not> accepted r"
    by (simp add: accepted_def validateInputs_3000_100)
  from a C7_reset [of "initial\<lparr>recentTexts := [''a'']\<rparr>" ?rs] show ?thesis by simp
qed

subsection \<open>Counting sizes\<close>

lemma digit_char_decimal: "k < 10 \<Longrightarrow> digit_char k \<in> set ''0123456789''"
proof -
  assume "k < 10"
  then have "k = 0 \<or> k = 1 \<or> k = 2 \<or> k = 3 \<or> k = 4 \<or> k = 5 \<or> k = 6 \<or> k = 7 \<or> k = 8 \<or> k = 9"
    by arith
  then show ?thesis by (elim disjE) (simp_all add: digit_char_def)
qed

lemma Number_toString_hd:
  "Number_toString k \<noteq> [] \<and> hd (Number_toString k) \<in> set ''0123456789''"
proof (induction k rule: Number_toString.induct)
  case (1 k)
  show ?case
  proof (cases "k < 10")
    case True
    then show ?thesis
      using digit_char_decimal [of k] by (simp add: Number_toString.simps [of k])
  next
    case False
    then show ?thesis
      using "1.IH" by (simp add: Number_toString.simps [of k])
  qed
qed

lemma prototype_keys_hd: "key \<in> set Object_prototype_keys \<Longrightarrow> hd key \<notin> set ''0123456789''"
  by (auto simp: Object_prototype_keys_def)

lemma sizeKey_not_inherited: "sizeKey_of res \<notin> set Object_prototype_keys"
proof
  assume "sizeKey_of res \<in> set Object_prototype_keys"
  then have "hd (sizeKey_of res) \<notin> set ''0123456789''" by (rule prototype_keys_hd)
  moreover have "hd (sizeKey_of res) = hd (Number_toString (width (params res)))"
    using Number_toString_hd [of "width (params res)"] by (simp add: sizeKey_of_def)
  ultimately show False using Number_toString_hd [of "width (params res)"] by simp
qed

lemma map_of_applyTopSizes:
  "map_of (topSizes (applyTopSizes res st)) =
     (map_of (topSizes st))
       (sizeKey_of res \<mapsto>
          (case map_of (topSizes st) (sizeKey_of res) of
             None \<Rightarrow> \<lparr>w = width (params res), h = height (params res), topSizeRecord.n = 1\<rparr>
           | Some r \<Rightarrow> r\<lparr>topSizeRecord.n := topSizeRecord.n r + 1\<rparr>))"
  using sizeKey_not_inherited [of res]
  by (simp add: applyTopSizes_def Let_def get_property_def sizeKey_of_def update_conv'
        split: option.splits)

lemma size_count_applyTopSizes:
  "size_count (topSizes (applyTopSizes res st)) key =
     (if key = sizeKey_of res then size_count (topSizes st) key + 1 else size_count (topSizes st) key)"
  by (simp add: size_count_def map_of_applyTopSizes split: option.splits)

lemma present_applyTopSizes: "map_of (topSizes (applyTopSizes res st)) (sizeKey_of res) \<noteq> None"
  by (simp add: map_of_applyTopSizes)

lemma exactly_one_take:
  "s \<notin> set ys \<Longrightarrow> filter (\<lambda>e. e = s) (take (Suc k) (s # ys)) = [s]"
proof -
  assume "s \<notin> set ys"
  then have "s \<notin> set (take k ys)" by (auto dest: in_set_takeD)
  then have "filter (\<lambda>e. e = s) (take k ys) = []" by (auto simp: filter_empty_conv)
  then show ?thesis by simp
qed

lemma one_entry_applyRecentSizes:
  "length (filter (\<lambda>e. w e = width (params res) \<and> h e = height (params res))
            (recentSizes (applyRecentSizes res st))) = 1"
proof -
  let ?s = "\<lparr>w = width (params res), h = height (params res)\<rparr>"
  have p: "(\<lambda>e. w e = width (params res) \<and> h e = height (params res)) = (\<lambda>e. e = ?s)"
    using sizes_eq_iff [of _ ?s] by auto
  have "?s \<notin> set (first_occurrences {?s} (recentSizes st))"
    by (simp add: set_first_occurrences)
  then have "filter (\<lambda>e. e = ?s) (take (Suc 9) (?s # first_occurrences {?s} (recentSizes st))) = [?s]"
    by (rule exactly_one_take)
  then show ?thesis
    by (simp add: recentSizes_applyRecentSizes p del: take_Suc_Cons)
qed

lemma stages_sizes_recent:
  "length (filter (\<lambda>e. w e = width (params res) \<and> h e = height (params res))
            (recentSizes (stages_sizes res st))) = 1"
  by (simp add: stages_sizes_def frame one_entry_applyRecentSizes)

lemma stages_sizes_count:
  "size_count (topSizes ((stages_sizes res ^^ k) st)) (sizeKey_of res) =
     size_count (topSizes st) (sizeKey_of res) + k"
  by (induction k) (simp_all add: stages_sizes_def size_count_applyTopSizes frame)

lemma stages_sizes_present:
  "map_of (topSizes (stages_sizes res st)) (sizeKey_of res) \<noteq> None"
  by (simp add: stages_sizes_def present_applyTopSizes)

text \<open>
  Claim C4. From any state, after the recent-sizes stage and the top-sizes stage have run
  5 times with the same validated width and height, \<open>recentSizes\<close> has exactly one entry
  for that size, and the record of \<open>topSizes\<close> under the key of that size has its count
  raised by 5 (from 0 when the key had no record).
\<close>

theorem C4_five_times:
  "length (filter (\<lambda>e. w e = width (params res) \<and> h e = height (params res))
            (recentSizes ((stages_sizes res ^^ 5) st))) = 1 \<and>
   (\<exists>r. map_of (topSizes ((stages_sizes res ^^ 5) st)) (sizeKey_of res) = Some r \<and>
        topSizeRecord.n r =
          (case map_of (topSizes st) (sizeKey_of res) of
             None \<Rightarrow> 0
           | Some r0 \<Rightarrow> topSizeRecord.n r0) + 5)"
proof -
  have five: "(stages_sizes res ^^ 5) st = stages_sizes res ((stages_sizes res ^^ 4) st)"
    by (simp add: eval_nat_numeral)
  have one: "length (filter (\<lambda>e. w e = width (params res) \<and> h e = height (params res))
            (recentSizes ((stages_sizes res ^^ 5) st))) = 1"
    unfolding five by (rule stages_sizes_recent)
  have "map_of (topSizes ((stages_sizes res ^^ 5) st)) (sizeKey_of res) \<noteq> None"
    unfolding five by (rule stages_sizes_present)
  then obtain r where r: "map_of (topSizes ((stages_sizes res ^^ 5) st)) (sizeKey_of res) = Some r"
    by auto
  have "size_count (topSizes ((stages_sizes res ^^ 5) st)) (sizeKey_of res) =
          size_count (topSizes st) (sizeKey_of res) + 5"
    by (rule stages_sizes_count)
  with r have "topSizeRecord.n r =
          (case map_of (topSizes st) (sizeKey_of res) of
             None \<Rightarrow> 0
           | Some r0 \<Rightarrow> topSizeRecord.n r0) + 5"
    by (simp add: size_count_def)
  with one r show ?thesis by blast
qed

theorem C4_five_times_witness:
  "\<exists>r. map_of (topSizes ((stages_sizes \<lparr>params = \<lparr>width = 100, height = 200\<rparr>,
            queries = \<lparr>square = None, text_q = None\<rparr>\<rparr> ^^ 5) initial))
          (sizeKey_of \<lparr>params = \<lparr>width = 100, height = 200\<rparr>,
            queries = \<lparr>square = None, text_q = None\<rparr>\<rparr>) = Some r \<and>
        topSizeRecord.n r = 5"
  using C4_five_times [of "\<lparr>params = \<lparr>width = 100, height = 200\<rparr>,
            queries = \<lparr>square = None, text_q = None\<rparr>\<rparr>" initial]
  by (simp add: initial_def)

subsection \<open>The top ten\<close>

lemma set_insert_cmp: "set (insert_cmp cmp x xs) = insert x (set xs)"
  by (induction xs) auto

lemma length_insert_cmp: "length (insert_cmp cmp x xs) = Suc (length xs)"
  by (induction xs) auto

lemma set_Array_sort: "set (Array_sort cmp xs) = set xs"
  by (induction xs) (simp_all add: Array_sort_def set_insert_cmp)

lemma length_Array_sort: "length (Array_sort cmp xs) = length xs"
  by (induction xs) (simp_all add: Array_sort_def length_insert_cmp)

lemma descending_insert_cmp:
  fixes f :: "'a \<Rightarrow> nat"
  assumes "sorted_wrt (\<lambda>a b. f b \<le> f a) xs"
  shows "sorted_wrt (\<lambda>a b. f b \<le> f a) (insert_cmp (\<lambda>a b. int (f b) - int (f a)) x xs)"
  using assms
proof (induction xs)
  case Nil
  show ?case by simp
next
  case (Cons y ys)
  show ?case
  proof (cases "f y \<le> f x")
    case True
    with Cons.prems show ?thesis by auto
  next
    case False
    with Cons show ?thesis by (auto simp: set_insert_cmp)
  qed
qed

lemma descending_Array_sort:
  fixes f :: "'a \<Rightarrow> nat"
  shows "sorted_wrt (\<lambda>a b. f b \<le> f a) (Array_sort (\<lambda>a b. int (f b) - int (f a)) xs)"
proof (induction xs)
  case Nil
  show ?case by (simp add: Array_sort_def)
next
  case (Cons x xs)
  then show ?case
    using descending_insert_cmp [of f "Array_sort (\<lambda>a b. int (f b) - int (f a)) xs" x]
    by (simp add: Array_sort_def)
qed

lemma Object_values_partition:
  "Object_values obj =
     map snd
       (sort_key (\<lambda>(key, r). case array_index key of None \<Rightarrow> 0 | Some v \<Rightarrow> v)
          (filter (\<lambda>p. array_index (fst p) \<noteq> None) obj) @
        filter (\<lambda>p. \<not> array_index (fst p) \<noteq> None) obj)"
  by (simp add: Object_values_def case_prod_unfold)

lemma set_Object_values: "set (Object_values obj) = snd ` set obj"
proof -
  have "set (filter (\<lambda>p. array_index (fst p) \<noteq> None) obj) \<union>
        set (filter (\<lambda>p. \<not> array_index (fst p) \<noteq> None) obj) = set obj"
    by auto
  then have "snd ` set (filter (\<lambda>p. array_index (fst p) \<noteq> None) obj) \<union>
        snd ` set (filter (\<lambda>p. \<not> array_index (fst p) \<noteq> None) obj) = snd ` set obj"
    by (simp only: image_Un [symmetric])
  then show ?thesis
    by (simp only: Object_values_partition set_map set_append set_sort image_Un)
qed

lemma length_Object_values: "length (Object_values obj) = length obj"
  by (simp only: Object_values_partition length_map length_append length_sort
        sum_length_filter_compl)

lemma top_of_descending:
  fixes f :: "'a \<Rightarrow> nat"
  assumes s: "sorted_wrt (\<lambda>a b. f b \<le> f a) xs"
      and r: "r \<in> set (take k xs)" and r': "r' \<in> set xs" "r' \<notin> set (take k xs)"
  shows "f r' \<le> f r"
proof -
  have "set xs = set (take k xs) \<union> set (drop k xs)"
    by (metis append_take_drop_id set_append)
  with r' have d: "r' \<in> set (drop k xs)" by blast
  from s have "sorted_wrt (\<lambda>a b. f b \<le> f a) (take k xs @ drop k xs)" by simp
  then have "\<forall>a \<in> set (take k xs). \<forall>b \<in> set (drop k xs). f b \<le> f a"
    by (simp only: sorted_wrt_append) blast
  with r d show ?thesis by blast
qed

lemma top_ten:
  fixes f :: "'a \<Rightarrow> nat" and obj :: "'a object"
  defines "xs \<equiv> take 10 (Array_sort (\<lambda>a b. int (f b) - int (f a)) (Object_values obj))"
  shows "length xs \<le> 10 \<and> length xs = min 10 (length obj) \<and>
         sorted_wrt (\<lambda>a b. f b \<le> f a) xs \<and>
         set xs \<subseteq> snd ` set obj \<and>
         (\<forall>r \<in> set xs. \<forall>r' \<in> snd ` set obj. r' \<notin> set xs \<longrightarrow> f r' \<le> f r)"
proof -
  let ?ys = "Array_sort (\<lambda>a b. int (f b) - int (f a)) (Object_values obj)"
  have s: "sorted_wrt (\<lambda>a b. f b \<le> f a) ?ys" by (rule descending_Array_sort)
  have set_ys: "set ?ys = snd ` set obj" by (simp add: set_Array_sort set_Object_values)
  have "sorted_wrt (\<lambda>a b. f b \<le> f a) (take 10 ?ys @ drop 10 ?ys)" using s by simp
  then have 1: "sorted_wrt (\<lambda>a b. f b \<le> f a) xs"
    unfolding xs_def by (simp only: sorted_wrt_append)
  have 2: "set xs \<subseteq> snd ` set obj"
    unfolding xs_def using set_take_subset [of 10 ?ys] by (simp only: set_ys)
  have 3: "\<forall>r \<in> set xs. \<forall>r' \<in> snd ` set obj. r' \<notin> set xs \<longrightarrow> f r' \<le> f r"
    unfolding xs_def using top_of_descending [OF s, of _ 10] by (simp only: set_ys) blast
  have 4: "length xs = min 10 (length obj)"
    unfolding xs_def by (simp add: length_Array_sort length_Object_values min.commute)
  from 1 2 3 4 show ?thesis by simp
qed

lemma mset_insert_cmp: "mset (insert_cmp cmp x xs) = add_mset x (mset xs)"
  by (induction xs) auto

lemma mset_Array_sort: "mset (Array_sort cmp xs) = mset xs"
  by (induction xs) (simp_all add: Array_sort_def mset_insert_cmp)

lemma mset_Object_values: "mset (Object_values obj) = mset (map snd obj)"
proof -
  have "mset (filter (\<lambda>p. array_index (fst p) \<noteq> None) obj) +
        mset (filter (\<lambda>p. \<not> array_index (fst p) \<noteq> None) obj) = mset obj"
    by (simp only: mset_filter multiset_partition [symmetric])
  then have "image_mset snd (mset (filter (\<lambda>p. array_index (fst p) \<noteq> None) obj)) +
        image_mset snd (mset (filter (\<lambda>p. \<not> array_index (fst p) \<noteq> None) obj)) =
        image_mset snd (mset obj)"
    by (simp only: image_mset_union [symmetric])
  then show ?thesis
    by (simp only: Object_values_partition mset_map mset_append mset_sort image_mset_union)
qed

lemma top_ten_all:
  fixes f :: "'a \<Rightarrow> nat" and obj :: "'a object"
  defines "ys \<equiv> Array_sort (\<lambda>a b. int (f b) - int (f a)) (Object_values obj)"
  shows "mset (take 10 ys @ drop 10 ys) = mset (map snd obj) \<and>
         sorted_wrt (\<lambda>a b. f b \<le> f a) (take 10 ys @ drop 10 ys)"
  unfolding ys_def
  by (simp only: append_take_drop_id mset_Array_sort mset_Object_values descending_Array_sort
        simp_thms)

lemma serveTopSizes_eleven:
  "serveTopSizes eleven_sizes =
     (JsonTopSizes
        [\<lparr>w = 11, h = 1, topSizeRecord.n = 11\<rparr>, \<lparr>w = 10, h = 1, topSizeRecord.n = 10\<rparr>,
         \<lparr>w = 9, h = 1, topSizeRecord.n = 9\<rparr>, \<lparr>w = 8, h = 1, topSizeRecord.n = 8\<rparr>,
         \<lparr>w = 7, h = 1, topSizeRecord.n = 7\<rparr>, \<lparr>w = 6, h = 1, topSizeRecord.n = 6\<rparr>,
         \<lparr>w = 5, h = 1, topSizeRecord.n = 5\<rparr>, \<lparr>w = 4, h = 1, topSizeRecord.n = 4\<rparr>,
         \<lparr>w = 3, h = 1, topSizeRecord.n = 3\<rparr>, \<lparr>w = 2, h = 1, topSizeRecord.n = 2\<rparr>],
      eleven_sizes)"
  by (simp add: serveTopSizes_def eleven_sizes_def initial_def Object_values_def Array_sort_def
        array_index_def parse_digits_def is_digit_def digit_of_def)

text \<open>
  Claim C8. For every state, the top-sizes read and the top-referrers read return the
  first 10 records (all of them when the table has fewer) of an arrangement of all the
  records of the table in descending order of the count: at most 10 records of the table,
  in descending order, every returned record counting at least as much as any record of
  the table that is not returned; the state that comes back is the state that went in.
\<close>

theorem C8_top:
  "(\<exists>xs. serveTopSizes st = (JsonTopSizes xs, st) \<and>
      length xs \<le> 10 \<and>
      length xs = min 10 (length (topSizes st)) \<and>
      sorted_wrt (\<lambda>a b. topSizeRecord.n b \<le> topSizeRecord.n a) xs \<and>
      set xs \<subseteq> snd ` set (topSizes st) \<and>
      (\<forall>r \<in> set xs. \<forall>r' \<in> snd ` set (topSizes st).
          r' \<notin> set xs \<longrightarrow> topSizeRecord.n r' \<le> topSizeRecord.n r) \<and>
      (\<exists>rest. mset (xs @ rest) = mset (map snd (topSizes st)) \<and>
          sorted_wrt (\<lambda>a b. topSizeRecord.n b \<le> topSizeRecord.n a) (xs @ rest))) \<and>
   (\<exists>ys. serveTopReferrers st = (JsonTopReferrers ys, st) \<and>
      length ys \<le> 10 \<and>
      length ys = min 10 (length (topReferrers st)) \<and>
      sorted_wrt (\<lambda>a b. topReferrerRecord.n b \<le> topReferrerRecord.n a) ys \<and>
      set ys \<subseteq> snd ` set (topReferrers st) \<and>
      (\<forall>r \<in> set ys. \<forall>r' \<in> snd ` set (topReferrers st).
          r' \<notin> set ys \<longrightarrow> topReferrerRecord.n r' \<le> topReferrerRecord.n r) \<and>
      (\<exists>rest. mset (ys @ rest) = mset (map snd (topReferrers st)) \<and>
          sorted_wrt (\<lambda>a b. topReferrerRecord.n b \<le> topReferrerRecord.n a) (ys @ rest)))"
proof (rule conjI)
  let ?srt = "Array_sort (\<lambda>a b. int (topSizeRecord.n b) - int (topSizeRecord.n a))
                (Object_values (topSizes st))"
  have r: "\<exists>rest. mset (take 10 ?srt @ rest) = mset (map snd (topSizes st)) \<and>
      sorted_wrt (\<lambda>a b. topSizeRecord.n b \<le> topSizeRecord.n a) (take 10 ?srt @ rest)"
    using top_ten_all [of topSizeRecord.n "topSizes st"] by (intro exI [of _ "drop 10 ?srt"])
  show "\<exists>xs. serveTopSizes st = (JsonTopSizes xs, st) \<and>
      length xs \<le> 10 \<and>
      length xs = min 10 (length (topSizes st)) \<and>
      sorted_wrt (\<lambda>a b. topSizeRecord.n b \<le> topSizeRecord.n a) xs \<and>
      set xs \<subseteq> snd ` set (topSizes st) \<and>
      (\<forall>r \<in> set xs. \<forall>r' \<in> snd ` set (topSizes st).
          r' \<notin> set xs \<longrightarrow> topSizeRecord.n r' \<le> topSizeRecord.n r) \<and>
      (\<exists>rest. mset (xs @ rest) = mset (map snd (topSizes st)) \<and>
          sorted_wrt (\<lambda>a b. topSizeRecord.n b \<le> topSizeRecord.n a) (xs @ rest))"
    using top_ten [of topSizeRecord.n "topSizes st"] r
    by (intro exI [of _ "take 10 ?srt"]) (simp add: serveTopSizes_def)
next
  let ?srt = "Array_sort (\<lambda>a b. int (topReferrerRecord.n b) - int (topReferrerRecord.n a))
                (Object_values (topReferrers st))"
  have r: "\<exists>rest. mset (take 10 ?srt @ rest) = mset (map snd (topReferrers st)) \<and>
      sorted_wrt (\<lambda>a b. topReferrerRecord.n b \<le> topReferrerRecord.n a) (take 10 ?srt @ rest)"
    using top_ten_all [of topReferrerRecord.n "topReferrers st"]
    by (intro exI [of _ "drop 10 ?srt"])
  show "\<exists>ys. serveTopReferrers st = (JsonTopReferrers ys, st) \<and>
      length ys \<le> 10 \<and>
      length ys = min 10 (length (topReferrers st)) \<and>
      sorted_wrt (\<lambda>a b. topReferrerRecord.n b \<le> topReferrerRecord.n a) ys \<and>
      set ys \<subseteq> snd ` set (topReferrers st) \<and>
      (\<forall>r \<in> set ys. \<forall>r' \<in> snd ` set (topReferrers st).
          r' \<notin> set ys \<longrightarrow> topReferrerRecord.n r' \<le> topReferrerRecord.n r) \<and>
      (\<exists>rest. mset (ys @ rest) = mset (map snd (topReferrers st)) \<and>
          sorted_wrt (\<lambda>a b. topReferrerRecord.n b \<le> topReferrerRecord.n a) (ys @ rest))"
    using top_ten [of topReferrerRecord.n "topReferrers st"] r
    by (intro exI [of _ "take 10 ?srt"]) (simp add: serveTopReferrers_def)
qed

theorem C8_top_witness:
  "\<exists>xs. serveTopSizes eleven_sizes = (JsonTopSizes xs, eleven_sizes) \<and>
      length xs = 10 \<and>
      \<lparr>w = 1, h = 1, topSizeRecord.n = 1\<rparr> \<in> snd ` set (topSizes eleven_sizes) \<and>
      \<lparr>w = 1, h = 1, topSizeRecord.n = 1\<rparr> \<notin> set xs \<and>
      (\<forall>r \<in> set xs. topSizeRecord.n \<lparr>w = 1, h = 1, topSizeRecord.n = 1\<rparr> \<le> topSizeRecord.n r)"
proof -
  let ?r1 = "\<lparr>w = 1, h = 1, topSizeRecord.n = 1\<rparr>"
  from C8_top [of eleven_sizes] obtain xs where
    xs: "serveTopSizes eleven_sizes = (JsonTopSizes xs, eleven_sizes)" and
    len: "length xs = min 10 (length (topSizes eleven_sizes))" and
    top: "\<forall>r \<in> set xs. \<forall>r' \<in> snd ` set (topSizes eleven_sizes).
            r' \<notin> set xs \<longrightarrow> topSizeRecord.n r' \<le> topSizeRecord.n r"
    by blast
  have m: "?r1 \<in> snd ` set (topSizes eleven_sizes)"
    by (simp add: eleven_sizes_def)
  from len have l: "length xs = 10" by (simp add: eleven_sizes_def)
  from xs have out: "?r1 \<notin> set xs"
    by (auto simp: serveTopSizes_eleven)
  from top m out have "\<forall>r \<in> set xs. topSizeRecord.n ?r1 \<le> topSizeRecord.n r"
    by blast
  with xs l m out show ?thesis by blast
qed

subsection \<open>The counters\<close>

lemma in_set_update:
  "p \<in> set (AList.update k v al) \<Longrightarrow> p = (k, v) \<or> p \<in> set al"
  by (induction al) (auto split: if_splits)

lemma topReferrers_applyTopReferrers:
  "topReferrers (applyTopReferrers req st) =
     (case headers_referer req of
        None \<Rightarrow> topReferrers st
      | Some referrerKey \<Rightarrow>
          if referrerKey \<noteq> [] then
            (case get_property (topReferrers st) referrerKey of
               Undefined \<Rightarrow>
                 AList.update referrerKey \<lparr>ref = referrerKey, n = 1\<rparr> (topReferrers st)
             | Own r \<Rightarrow>
                 AList.update referrerKey
                   (r\<lparr>topReferrerRecord.n := topReferrerRecord.n r + 1\<rparr>) (topReferrers st)
             | Inherited \<Rightarrow> topReferrers st)
          else topReferrers st)"
  by (simp add: applyTopReferrers_def split: option.splits property.splits)

lemma topSizes_applyTopSizes:
  "topSizes (applyTopSizes res st) =
     (case get_property (topSizes st) (sizeKey_of res) of
        Undefined \<Rightarrow>
          AList.update (sizeKey_of res)
            \<lparr>w = width (params res), h = height (params res), topSizeRecord.n = 1\<rparr> (topSizes st)
      | Own r \<Rightarrow>
          AList.update (sizeKey_of res) (r\<lparr>topSizeRecord.n := topSizeRecord.n r + 1\<rparr>) (topSizes st)
      | Inherited \<Rightarrow> topSizes st)"
  by (simp add: applyTopSizes_def sizeKey_of_def Let_def split: property.splits)

lemma positive_applyTopSizes:
  assumes "\<forall>(key, r) \<in> set (topSizes st). 0 < topSizeRecord.n r"
  shows "\<forall>(key, r) \<in> set (topSizes (applyTopSizes res st)). 0 < topSizeRecord.n r"
proof (cases "get_property (topSizes st) (sizeKey_of res)")
  case (Own r)
  with assms show ?thesis
    by (auto simp: topSizes_applyTopSizes dest!: in_set_update)
next
  case Inherited
  with assms show ?thesis by (simp add: topSizes_applyTopSizes)
next
  case Undefined
  with assms show ?thesis
    by (auto simp: topSizes_applyTopSizes dest!: in_set_update)
qed

lemma positive_applyTopReferrers:
  assumes "\<forall>(key, r) \<in> set (topReferrers st). 0 < topReferrerRecord.n r"
  shows "\<forall>(key, r) \<in> set (topReferrers (applyTopReferrers req st)). 0 < topReferrerRecord.n r"
proof (cases "headers_referer req")
  case None
  with assms show ?thesis by (simp add: topReferrers_applyTopReferrers)
next
  case (Some k)
  show ?thesis
  proof (cases "get_property (topReferrers st) k")
    case (Own r)
    with assms Some show ?thesis
      by (auto simp: topReferrers_applyTopReferrers dest!: in_set_update)
  next
    case Inherited
    with assms Some show ?thesis by (simp add: topReferrers_applyTopReferrers)
  next
    case Undefined
    with assms Some show ?thesis
      by (auto simp: topReferrers_applyTopReferrers dest!: in_set_update)
  qed
qed

lemma positive_getImg: "positive_counts st \<Longrightarrow> positive_counts (snd (getImg req st))"
proof (cases "validateInputs req")
  case (Inl c)
  assume "positive_counts st"
  with Inl show ?thesis by (simp add: getImg_rejected)
next
  case (Inr res)
  assume p: "positive_counts st"
  let ?a = "applyRecentTexts res (applyRecentSizes res (applyRecentPaths req res st))"
  have 1: "\<forall>(key, r) \<in> set (topSizes ?a). 0 < topSizeRecord.n r"
    using p by (simp add: positive_counts_def frame)
  have 2: "\<forall>(key, r) \<in> set (topReferrers (applyTopSizes res ?a)). 0 < topReferrerRecord.n r"
    using p by (simp add: positive_counts_def frame)
  have "\<forall>(key, r) \<in> set (topSizes (applyTopSizes res ?a)). 0 < topSizeRecord.n r"
    using 1 by (rule positive_applyTopSizes)
  moreover have "\<forall>(key, r) \<in> set (topReferrers (applyTopReferrers req (applyTopSizes res ?a))).
      0 < topReferrerRecord.n r"
    using 2 by (rule positive_applyTopReferrers)
  ultimately show ?thesis
    using Inr by (simp add: positive_counts_def getImg_accepted frame)
qed

lemma positive_handle: "positive_counts st \<Longrightarrow> positive_counts (snd (handle r st))"
proof (cases r)
  case (GET_img req)
  assume "positive_counts st"
  then show ?thesis unfolding GET_img handle.simps by (rule positive_getImg)
next
  case DELETE_stats
  show ?thesis unfolding DELETE_stats by (simp add: resetStats_def positive_counts_def)
qed (simp_all add: serveRecentPaths_def serveRecentSizes_def serveRecentTexts_def
       serveTopSizes_def serveTopReferrers_def)

lemma positive_run: "positive_counts st \<Longrightarrow> positive_counts (run rs st)"
  by (induction rs arbitrary: st) (simp_all add: positive_handle)

lemma positive_initial: "positive_counts initial"
  by (simp add: positive_counts_def initial_def)

lemma map_of_applyTopReferrers:
  assumes "headers_referer req = Some k" "k \<noteq> []" "k \<notin> set Object_prototype_keys"
  shows "map_of (topReferrers (applyTopReferrers req st)) =
     (map_of (topReferrers st))
       (k \<mapsto> (case map_of (topReferrers st) k of
                 None \<Rightarrow> \<lparr>ref = k, n = 1\<rparr>
               | Some r \<Rightarrow> r\<lparr>topReferrerRecord.n := topReferrerRecord.n r + 1\<rparr>))"
  using assms
  by (simp add: topReferrers_applyTopReferrers get_property_def update_conv' split: option.splits)

lemma referrer_count_mono:
  "referrer_count (topReferrers st) key \<le> referrer_count (topReferrers (applyTopReferrers req st)) key"
  by (auto simp: topReferrers_applyTopReferrers referrer_count_def get_property_def update_conv'
        split: option.splits if_splits)

lemma size_count_mono:
  "size_count (topSizes st) key \<le> size_count (topSizes (applyTopSizes res st)) key"
  by (simp add: size_count_applyTopSizes)

lemma counts_mono_getImg:
  "size_count (topSizes st) key \<le> size_count (topSizes (snd (getImg req st))) key \<and>
   referrer_count (topReferrers st) key \<le> referrer_count (topReferrers (snd (getImg req st))) key"
proof (cases "validateInputs req")
  case (Inl c)
  then show ?thesis by (simp add: getImg_rejected)
next
  case (Inr res)
  let ?a = "applyRecentTexts res (applyRecentSizes res (applyRecentPaths req res st))"
  have "size_count (topSizes ?a) key \<le> size_count (topSizes (applyTopSizes res ?a)) key"
    by (rule size_count_mono)
  moreover have "referrer_count (topReferrers (applyTopSizes res ?a)) key \<le>
      referrer_count (topReferrers (applyTopReferrers req (applyTopSizes res ?a))) key"
    by (rule referrer_count_mono)
  ultimately show ?thesis using Inr by (simp add: getImg_accepted frame)
qed

lemma counts_mono_handle:
  "r \<noteq> DELETE_stats \<Longrightarrow>
   size_count (topSizes st) key \<le> size_count (topSizes (snd (handle r st))) key \<and>
   referrer_count (topReferrers st) key \<le> referrer_count (topReferrers (snd (handle r st))) key"
  by (cases r)
     (simp_all add: counts_mono_getImg serveRecentPaths_def serveRecentSizes_def
        serveRecentTexts_def serveTopSizes_def serveTopReferrers_def)

lemma counts_mono_run:
  "DELETE_stats \<notin> set rs \<Longrightarrow>
   size_count (topSizes st) key \<le> size_count (topSizes (run rs st)) key \<and>
   referrer_count (topReferrers st) key \<le> referrer_count (topReferrers (run rs st)) key"
proof (induction rs arbitrary: st)
  case Nil
  show ?case by simp
next
  case (Cons r rs)
  then have a: "r \<noteq> DELETE_stats" and b: "DELETE_stats \<notin> set rs" by auto
  from counts_mono_handle [OF a, of st key] Cons.IH [OF b, of "snd (handle r st)"]
  show ?case by (auto intro: le_trans)
qed

lemma topSizes_applyTopSizes_cong:
  "topSizes st1 = topSizes st2 \<Longrightarrow>
   topSizes (applyTopSizes res st1) = topSizes (applyTopSizes res st2)"
  by (simp add: topSizes_applyTopSizes split: property.splits)

lemma topReferrers_applyTopReferrers_cong:
  "topReferrers st1 = topReferrers st2 \<Longrightarrow>
   topReferrers (applyTopReferrers req st1) = topReferrers (applyTopReferrers req st2)"
  by (simp add: topReferrers_applyTopReferrers split: option.splits property.splits)

lemma topSizes_getImg:
  assumes "validateInputs req = Inr res"
  shows "topSizes (snd (getImg req st)) = topSizes (applyTopSizes res st)"
proof -
  let ?a = "applyRecentTexts res (applyRecentSizes res (applyRecentPaths req res st))"
  have "topSizes (snd (getImg req st)) = topSizes (applyTopSizes res ?a)"
    using assms by (simp add: getImg_accepted frame)
  also have "\<dots> = topSizes (applyTopSizes res st)"
    by (rule topSizes_applyTopSizes_cong) (simp add: frame)
  finally show ?thesis .
qed

lemma topReferrers_getImg:
  assumes "validateInputs req = Inr res"
  shows "topReferrers (snd (getImg req st)) = topReferrers (applyTopReferrers req st)"
proof -
  let ?a = "applyTopSizes res (applyRecentTexts res (applyRecentSizes res
              (applyRecentPaths req res st)))"
  have "topReferrers (snd (getImg req st)) = topReferrers (applyTopReferrers req ?a)"
    using assms by (simp add: getImg_accepted)
  also have "\<dots> = topReferrers (applyTopReferrers req st)"
    by (rule topReferrers_applyTopReferrers_cong) (simp add: frame)
  finally show ?thesis .
qed

text \<open>
  Claim C5, as stated, fails: a request whose referrer header is present and empty, and
  one whose referrer header is \<^verbatim>\<open>constructor\<close>, are accepted and leave \<open>topReferrers\<close> empty,
  so no referrer record is counted.
\<close>

theorem C5_counterexample:
  "validateInputs \<lparr>path = ''/img/100/200'', params_width = ''100'', params_height = ''200'',
      query_square = None, query_text = None, headers_referer = Some []\<rparr> =
     Inr \<lparr>params = \<lparr>width = 100, height = 200\<rparr>, queries = \<lparr>square = None, text_q = None\<rparr>\<rparr> \<and>
   topReferrers (snd (getImg \<lparr>path = ''/img/100/200'', params_width = ''100'',
      params_height = ''200'', query_square = None, query_text = None,
      headers_referer = Some []\<rparr> initial)) = [] \<and>
   validateInputs \<lparr>path = ''/img/100/200'', params_width = ''100'', params_height = ''200'',
      query_square = None, query_text = None, headers_referer = Some ''constructor''\<rparr> =
     Inr \<lparr>params = \<lparr>width = 100, height = 200\<rparr>, queries = \<lparr>square = None, text_q = None\<rparr>\<rparr> \<and>
   topReferrers (snd (getImg \<lparr>path = ''/img/100/200'', params_width = ''100'',
      params_height = ''200'', query_square = None, query_text = None,
      headers_referer = Some ''constructor''\<rparr> initial)) = []"
  by (simp add: validateInputs_100_200_any topReferrers_getImg [OF validateInputs_100_200_any]
        topReferrers_applyTopReferrers get_property_def Object_prototype_keys_def initial_def)

text \<open>
  Claim C5, amended. In every state reached from the initial one, every record of
  \<open>topSizes\<close> and \<open>topReferrers\<close> has a count above zero. An accepted request raises the count
  under its size key by 1 and leaves every other size key as it was; when the referrer
  header is present, is not the empty string and is not the name of a property inherited
  from \<^verbatim>\<open>Object.prototype\<close>, it raises the count under that referrer by 1 and leaves every
  other referrer as it was; when the header is absent or empty the table of referrers is
  unchanged. Through a run of requests without a reset no count goes down.
\<close>

theorem C5_counts:
  "positive_counts (run rs initial) \<and>
   (validateInputs req = Inr res \<longrightarrow>
      size_count (topSizes (snd (getImg req st))) (sizeKey_of res) =
        size_count (topSizes st) (sizeKey_of res) + 1 \<and>
      map_of (topSizes (snd (getImg req st))) (sizeKey_of res) \<noteq> None \<and>
      (\<forall>key. key \<noteq> sizeKey_of res \<longrightarrow>
         map_of (topSizes (snd (getImg req st))) key = map_of (topSizes st) key) \<and>
      (\<forall>k. headers_referer req = Some k \<and> k \<noteq> [] \<and> k \<notin> set Object_prototype_keys \<longrightarrow>
         referrer_count (topReferrers (snd (getImg req st))) k =
           referrer_count (topReferrers st) k + 1 \<and>
         map_of (topReferrers (snd (getImg req st))) k \<noteq> None \<and>
         (\<forall>key. key \<noteq> k \<longrightarrow>
            map_of (topReferrers (snd (getImg req st))) key = map_of (topReferrers st) key)) \<and>
      (headers_referer req = None \<or> headers_referer req = Some [] \<longrightarrow>
         topReferrers (snd (getImg req st)) = topReferrers st)) \<and>
   (DELETE_stats \<notin> set rs' \<longrightarrow>
      (\<forall>key. size_count (topSizes st) key \<le> size_count (topSizes (run rs' st)) key \<and>
             referrer_count (topReferrers st) key \<le>
               referrer_count (topReferrers (run rs' st)) key))"
proof (intro conjI impI allI)
  show "positive_counts (run rs initial)"
    by (rule positive_run [OF positive_initial])
next
  assume v: "validateInputs req = Inr res"
  show "size_count (topSizes (snd (getImg req st))) (sizeKey_of res) =
        size_count (topSizes st) (sizeKey_of res) + 1"
    by (simp add: topSizes_getImg [OF v] size_count_applyTopSizes)
  show "map_of (topSizes (snd (getImg req st))) (sizeKey_of res) \<noteq> None"
    by (simp add: topSizes_getImg [OF v] present_applyTopSizes)
  show "map_of (topSizes (snd (getImg req st))) key = map_of (topSizes st) key"
    if "key \<noteq> sizeKey_of res" for key
    using that by (simp add: topSizes_getImg [OF v] map_of_applyTopSizes)
  show "referrer_count (topReferrers (snd (getImg req st))) k =
           referrer_count (topReferrers st) k + 1"
    if "headers_referer req = Some k \<and> k \<noteq> [] \<and> k \<notin> set Object_prototype_keys" for k
    using that
    by (simp add: topReferrers_getImg [OF v] map_of_applyTopReferrers referrer_count_def
          split: option.splits)
  show "map_of (topReferrers (snd (getImg req st))) k \<noteq> None"
    if "headers_referer req = Some k \<and> k \<noteq> [] \<and> k \<notin> set Object_prototype_keys" for k
    using that by (simp add: topReferrers_getImg [OF v] map_of_applyTopReferrers)
  show "map_of (topReferrers (snd (getImg req st))) key = map_of (topReferrers st) key"
    if "headers_referer req = Some k \<and> k \<noteq> [] \<and> k \<notin> set Object_prototype_keys"
      and "key \<noteq> k" for k key
    using that by (simp add: topReferrers_getImg [OF v] map_of_applyTopReferrers)
  show "topReferrers (snd (getImg req st)) = topReferrers st"
    if "headers_referer req = None \<or> headers_referer req = Some []"
    using that by (auto simp: topReferrers_getImg [OF v] topReferrers_applyTopReferrers)
next
  fix key
  assume d: "DELETE_stats \<notin> set rs'"
  from counts_mono_run [OF d, of st key]
  show "size_count (topSizes st) key \<le> size_count (topSizes (run rs' st)) key"
    and "referrer_count (topReferrers st) key \<le> referrer_count (topReferrers (run rs' st)) key"
    by simp_all
qed

theorem C5_counts_witness:
  "validateInputs \<lparr>path = ''/img/100/200'', params_width = ''100'', params_height = ''200'',
      query_square = None, query_text = None, headers_referer = Some ''http://x''\<rparr> =
     Inr \<lparr>params = \<lparr>width = 100, height = 200\<rparr>, queries = \<lparr>square = None, text_q = None\<rparr>\<rparr> \<and>
   ''http://x'' \<notin> set Object_prototype_keys \<and>
   size_count (topSizes (snd (getImg \<lparr>path = ''/img/100/200'', params_width = ''100'',
      params_height = ''200'', query_square = None, query_text = None,
      headers_referer = Some ''http://x''\<rparr> initial)))
     (sizeKey_of \<lparr>params = \<lparr>width = 100, height = 200\<rparr>,
        queries = \<lparr>square = None, text_q = None\<rparr>\<rparr>) = 1 \<and>
   referrer_count (topReferrers (snd (getImg \<lparr>path = ''/img/100/200'', params_width = ''100'',
      params_height = ''200'', query_square = None, query_text = None,
      headers_referer = Some ''http://x''\<rparr> initial))) ''http://x'' = 1"
proof -
  let ?req = "\<lparr>path = ''/img/100/200'', params_width = ''100'', params_height = ''200'',
      query_square = None, query_text = None, headers_referer = Some ''http://x''\<rparr>"
  let ?res = "\<lparr>params = \<lparr>width = 100, height = 200\<rparr>, queries = \<lparr>square = None, text_q = None\<rparr>\<rparr>"
  have v: "validateInputs ?req = Inr ?res" by (simp add: validateInputs_100_200_any)
  have k: "''http://x'' \<notin> set Object_prototype_keys" by (simp add: Object_prototype_keys_def)
  from v k C5_counts [of "[]" ?req ?res initial "[]"] show ?thesis
    by (simp add: initial_def size_count_def referrer_count_def)
qed

end
